theory Spec2Isabelle
  imports Complex_Main "HOL-Library.Word"
begin

section \<open>JavaScript strings\<close>

text \<open>
  A JavaScript string is a sequence of 16-bit UTF-16 code units; a \<open>Uint8Array\<close> is a
  sequence of bytes. The string literals of \<open>index.js\<close> are ASCII and are written
  \<open>js ''...''\<close>.
\<close>

type_synonym code_unit = "16 word"
type_synonym jsstring = "code_unit list"
type_synonym byte = "8 word"

definition js :: "string \<Rightarrow> jsstring" where
  "js s = map (\<lambda>c. of_nat (of_char c)) s"

text \<open>
  \<open>String.prototype.trim\<close> removes white space and line terminators from both ends:
  TAB, LF, VT, FF, CR, SP, NBSP, U+1680, U+2000 to U+200A, U+2028, U+2029, U+202F,
  U+205F, U+3000 and U+FEFF.
\<close>

definition is_js_space :: "code_unit \<Rightarrow> bool" where
  "is_js_space u =
     (let n = unat u in
        (9 \<le> n \<and> n \<le> 13) \<or> n = 0x20 \<or> n = 0xA0 \<or> n = 0x1680 \<or>
        (0x2000 \<le> n \<and> n \<le> 0x200A) \<or> n = 0x2028 \<or> n = 0x2029 \<or> n = 0x202F \<or>
        n = 0x205F \<or> n = 0x3000 \<or> n = 0xFEFF)"

definition trim :: "jsstring \<Rightarrow> jsstring" where
  "trim s = rev (dropWhile is_js_space (rev (dropWhile is_js_space s)))"

text \<open>
  \<open>s.split(' ')\<close>: the pieces between the spaces, empty pieces included; the result
  always has at least one element.
\<close>

fun split_space :: "jsstring \<Rightarrow> jsstring list" where
  "split_space [] = [[]]"
| "split_space (c # cs) =
     (if c = 0x20 then [] # split_space cs
      else (case split_space cs of
              [] \<Rightarrow> [[c]]
            | t # ts \<Rightarrow> (c # t) # ts))"

text \<open>\<open>pieces.join(' ')\<close>.\<close>

fun join_space :: "jsstring list \<Rightarrow> jsstring" where
  "join_space [] = []"
| "join_space [t] = t"
| "join_space (t # ts) = t @ 0x20 # join_space ts"

text \<open>The decimal digits of a natural number, and \<open>String(n)\<close> for an integer n.\<close>

fun decimal :: "nat \<Rightarrow> jsstring" where
  "decimal n =
     (if n < 10 then [of_nat (48 + n)]
      else decimal (n div 10) @ [of_nat (48 + n mod 10)])"

declare decimal.simps [simp del]

definition number_to_string :: "int \<Rightarrow> jsstring" where
  "number_to_string n = (if n < 0 then js ''-'' @ decimal (nat (- n)) else decimal (nat n))"

text \<open>
  Reading a string as a decimal numeral: its units are digits, it has no leading zero
  unless it is one digit long, and \<open>decimal_value\<close> is the number it writes.
\<close>

definition is_digit :: "code_unit \<Rightarrow> bool" where
  "is_digit u = (0x30 \<le> unat u \<and> unat u \<le> 0x39)"

definition decimal_numeral :: "jsstring \<Rightarrow> bool" where
  "decimal_numeral ds = (ds \<noteq> [] \<and> list_all is_digit ds \<and> (length ds = 1 \<or> hd ds \<noteq> 0x30))"

definition decimal_value :: "jsstring \<Rightarrow> nat" where
  "decimal_value ds = foldl (\<lambda>acc u. 10 * acc + (unat u - 0x30)) 0 ds"

section \<open>The node and the console as seen by the program\<close>

text \<open>
  The calls the program makes on the node returned by \<open>create\<close>; each returns a promise.
\<close>

datatype nodecall =
    PubsubSubscribe jsstring
  | PubsubPublish jsstring "byte list"
  | PubsubLs
  | PubsubPeers jsstring
  | SwarmPeers
  | NodeStop

text \<open>A thrown value or the reason of a rejected promise.\<close>

datatype exn = Error jsstring | TypeError jsstring

text \<open>
  How a promise of the node settles. The shape of a resolved value is the one of the
  node's interface: nothing for subscribe, publish and stop, a list of names for
  \<open>pubsub.ls\<close> and \<open>pubsub.peers\<close>, a list of \<open>{peer, addr}\<close> objects for \<open>swarm.peers\<close>.
  Where the program calls \<open>forEach\<close> or reads \<open>length\<close> on a value of another shape the
  model raises a TypeError.
\<close>

datatype outcome =
    Rejected exn
  | Resolved
  | ResolvedNames "jsstring list"
  | ResolvedPeers "(jsstring \<times> jsstring) list"

text \<open>
  What the program does to the outside: a line written by \<open>console.log\<close>, a
  \<open>console.log\<close> of two strings, a \<open>console.error\<close> of a label and an error,
  \<open>rl.prompt()\<close>, a call on the node, and \<open>process.exit\<close>. In \<open>LogFormat f x\<close> the
  first string is the format string of the call \<open>console.log(f, x)\<close>: the console
  formats it as \<open>util.format\<close> does, where a \<open>%\<close> directive in \<open>f\<close> takes \<open>x\<close> and
  otherwise \<open>x\<close> follows \<open>f\<close> after a space. The event records the two arguments as the
  program passes them, not the formatted line.
\<close>

datatype event =
    Log jsstring
  | LogFormat jsstring jsstring
  | ErrorLog jsstring exn
  | Prompt
  | Call nodecall
  | ProcessExit int

text \<open>
  An async function is a resumption: it returns, throws, writes an event and goes on,
  ends the process, or awaits a call on the node and goes on with the way the call
  settles.
\<close>

datatype 'a proc =
    Return 'a
  | Throw exn
  | Out event "'a proc"
  | Exit int
  | Await nodecall "outcome \<Rightarrow> 'a proc"

primrec bind :: "'a proc \<Rightarrow> ('a \<Rightarrow> 'b proc) \<Rightarrow> 'b proc" where
  "bind (Return x) f = f x"
| "bind (Throw e) f = Throw e"
| "bind (Out ev p) f = Out ev (bind p f)"
| "bind (Exit n) f = Exit n"
| "bind (Await c k) f = Await c (\<lambda>r. bind (k r) f)"

text \<open>\<open>try { p } catch (err) { h err }\<close>.\<close>

primrec try_catch :: "'a proc \<Rightarrow> (exn \<Rightarrow> 'a proc) \<Rightarrow> 'a proc" where
  "try_catch (Return x) h = Return x"
| "try_catch (Throw e) h = h e"
| "try_catch (Out ev p) h = Out ev (try_catch p h)"
| "try_catch (Exit n) h = Exit n"
| "try_catch (Await c k) h = Await c (\<lambda>r. try_catch (k r) h)"

text \<open>\<open>await call\<close>: a rejection is thrown at the await.\<close>

definition await :: "nodecall \<Rightarrow> outcome proc" where
  "await c = Await c (\<lambda>r. case r of Rejected e \<Rightarrow> Throw e | _ \<Rightarrow> Return r)"

definition console_log :: "jsstring \<Rightarrow> unit proc" where
  "console_log s = Out (Log s) (Return ())"

definition console_error :: "jsstring \<Rightarrow> exn \<Rightarrow> unit proc" where
  "console_error label err = Out (ErrorLog label err) (Return ())"

text \<open>\<open>xs.forEach(x => console.log(f x))\<close>.\<close>

fun log_each :: "('a \<Rightarrow> jsstring) \<Rightarrow> 'a list \<Rightarrow> unit proc" where
  "log_each f [] = Return ()"
| "log_each f (x # xs) = Out (Log (f x)) (log_each f xs)"

text \<open>The arrays the program iterates over, read from a settled call.\<close>

definition names_of :: "outcome \<Rightarrow> jsstring list proc" where
  "names_of r =
     (case r of
        ResolvedNames ns \<Rightarrow> Return ns
      | Rejected e \<Rightarrow> Throw e
      | _ \<Rightarrow> Throw (TypeError (js ''forEach is not a function'')))"

definition peers_of :: "outcome \<Rightarrow> (jsstring \<times> jsstring) list proc" where
  "peers_of r =
     (case r of
        ResolvedPeers ps \<Rightarrow> Return ps
      | Rejected e \<Rightarrow> Throw e
      | _ \<Rightarrow> Throw (TypeError (js ''forEach is not a function'')))"

section \<open>The pubsub interface (index.js, lines 69 to 118)\<close>

text \<open>
  \<open>uint8ArrayFromString\<close> is imported from the package \<open>uint8arrays\<close>. The interface
  takes it as the parameter \<open>enc\<close>, a function that returns the bytes or throws.
\<close>

definition of_result :: "exn + 'a \<Rightarrow> 'a proc" where
  "of_result r = (case r of Inl e \<Rightarrow> Throw e | Inr x \<Rightarrow> Return x)"

definition pubsub_subscribe :: "jsstring \<Rightarrow> unit proc" where
  "pubsub_subscribe topic =
     try_catch
       (bind (await (PubsubSubscribe topic))
          (\<lambda>_. console_log (js ''Subscribed to topic: '' @ topic)))
       (\<lambda>err. console_error (js ''Failed to subscribe:'') err)"

definition pubsub_publish ::
  "(jsstring \<Rightarrow> exn + byte list) \<Rightarrow> jsstring \<Rightarrow> jsstring \<Rightarrow> unit proc" where
  "pubsub_publish enc topic message =
     try_catch
       (bind (of_result (enc message)) (\<lambda>msgUint8Array.
        bind (await (PubsubPublish topic msgUint8Array)) (\<lambda>_.
        console_log (js ''Published message to '' @ topic))))
       (\<lambda>err. console_error (js ''Failed to publish:'') err)"

definition pubsub_listTopics :: "unit proc" where
  "pubsub_listTopics =
     try_catch
       (bind (await PubsubLs) (\<lambda>r.
        bind (console_log (js ''\<newline>Subscribed topics:'')) (\<lambda>_.
        bind (names_of r) (\<lambda>topics.
        log_each (\<lambda>topic. js ''- '' @ topic) topics))))
       (\<lambda>err. console_error (js ''Failed to list topics:'') err)"

definition pubsub_listPeers :: "jsstring \<Rightarrow> unit proc" where
  "pubsub_listPeers topic =
     try_catch
       (bind (await (PubsubPeers topic)) (\<lambda>r.
        bind (console_log (js ''\<newline>Peers subscribed to '' @ topic @ js '':'')) (\<lambda>_.
        bind (names_of r) (\<lambda>peers.
        log_each (\<lambda>peer. js ''- '' @ peer) peers))))
       (\<lambda>err. console_error (js ''Failed to list peers:'') err)"

section \<open>The command line (index.js, lines 136 to 211)\<close>

text \<open>The identity read once from \<open>node.id()\<close>.\<close>

record identity =
  id' :: jsstring
  addresses :: "jsstring list"

text \<open>\<open>!args[i]\<close>: true where the element is missing or the empty string.\<close>

definition missing :: "jsstring list \<Rightarrow> nat \<Rightarrow> bool" where
  "missing args i = (if i < length args then args ! i = [] else True)"

definition processCommand ::
  "(jsstring \<Rightarrow> exn + byte list) \<Rightarrow> identity \<Rightarrow> jsstring \<Rightarrow> unit proc" where
  "processCommand enc ident input =
     (case split_space (trim input) of
        [] \<Rightarrow> console_log (js ''Unknown command. Type help for available commands.'')
      | command # args \<Rightarrow>
          if command = js ''sub'' then
            (if missing args 0 then console_log (js ''Usage: sub <topic>'')
             else pubsub_subscribe (args ! 0))
          else if command = js ''pub'' then
            (if missing args 0 \<or> missing args 1 then
               console_log (js ''Usage: pub <topic> <message>'')
             else
               (let topic = args ! 0; message = join_space (drop 1 args)
                in pubsub_publish enc topic message))
          else if command = js ''topics'' then pubsub_listTopics
          else if command = js ''peers'' then
            (if missing args 0 then console_log (js ''Usage: peers <topic>'')
             else pubsub_listPeers (args ! 0))
          else if command = js ''info'' then
            bind (console_log (js ''\<newline>Node ID: '' @ id' ident)) (\<lambda>_.
            bind (console_log (js ''Addresses:'')) (\<lambda>_.
            log_each (\<lambda>addr. js ''- '' @ addr) (addresses ident)))
          else if command = js ''swarm'' then
            bind (await SwarmPeers) (\<lambda>r.
            bind (peers_of r) (\<lambda>peers.
            bind (console_log (js ''\<newline>Connected peers: '' @
                                 number_to_string (int (length peers)))) (\<lambda>_.
            log_each (\<lambda>peer. js ''- '' @ fst peer @ js '': '' @ snd peer) peers)))
          else if command = js ''quit'' then
            bind (console_log (js ''Shutting down...'')) (\<lambda>_.
            bind (await NodeStop) (\<lambda>_.
            Exit 0))
          else console_log (js ''Unknown command. Type help for available commands.''))"

text \<open>The listener of the \<open>line\<close> event.\<close>

definition on_line ::
  "(jsstring \<Rightarrow> exn + byte list) \<Rightarrow> identity \<Rightarrow> jsstring \<Rightarrow> unit proc" where
  "on_line enc ident input =
     bind (try_catch (processCommand enc ident input)
             (\<lambda>err. console_error (js ''Error processing command:'') err))
       (\<lambda>_. Out Prompt (Return ()))"

text \<open>The listener of \<open>SIGINT\<close>.\<close>

definition on_sigint :: "unit proc" where
  "on_sigint =
     bind (console_log (js ''\<newline>Shutting down IPFS node...'')) (\<lambda>_.
     bind (await NodeStop) (\<lambda>_.
     Exit 0))"

section \<open>Running a listener\<close>

text \<open>
  How a run of a listener ends: it returned, it threw, or the process exited.
\<close>

datatype 'a ending = Finished 'a | Uncaught exn | Exited int

text \<open>
  A listener run alone, each awaited call settled as \<open>node\<close> says: the events in order,
  and how the run ended.
\<close>

primrec run_with :: "(nodecall \<Rightarrow> outcome) \<Rightarrow> 'a proc \<Rightarrow> event list \<times> 'a ending" where
  "run_with node (Return x) = ([], Finished x)"
| "run_with node (Throw e) = ([], Uncaught e)"
| "run_with node (Out ev p) = (ev # fst (run_with node p), snd (run_with node p))"
| "run_with node (Exit n) = ([ProcessExit n], Exited n)"
| "run_with node (Await c k) =
     (Call c # fst (run_with node (k (node c))), snd (run_with node (k (node c))))"

section \<open>Listeners on the event loop\<close>

text \<open>
  The listeners run on one thread. A listener that is started runs until it ends or
  reaches an \<open>await\<close> of a call on the node; there it is suspended, and the event loop
  is free to start other listeners until the call settles.
\<close>

datatype 'a pause = Ended "'a ending" | Awaiting nodecall "outcome \<Rightarrow> 'a proc"

primrec run_to_await :: "'a proc \<Rightarrow> event list \<times> 'a pause" where
  "run_to_await (Return x) = ([], Ended (Finished x))"
| "run_to_await (Throw e) = ([], Ended (Uncaught e))"
| "run_to_await (Out ev p) = (ev # fst (run_to_await p), snd (run_to_await p))"
| "run_to_await (Exit n) = ([ProcessExit n], Ended (Exited n))"
| "run_to_await (Await c k) = ([Call c], Awaiting c k)"

text \<open>
  The process while the command line is open: the events so far, the suspended
  listeners (oldest first), and the exit code once the process has ended.
\<close>

record console =
  events :: "event list"
  pending :: "(outcome \<Rightarrow> unit proc) list"
  exit_code :: "int option"

text \<open>
  What the event loop delivers: a line read by readline, the signal SIGINT, or the
  settling of the call that the i-th suspended listener awaits.
\<close>

datatype stimulus = Line jsstring | Sigint | Settled nat outcome

definition initial :: console where
  "initial = \<lparr>events = [], pending = [], exit_code = None\<rparr>"

text \<open>
  Starting or resuming a listener. \<open>process.exit\<close> ends the process with its code; an
  exception that leaves an async listener is an unhandled rejection, which ends the
  process with code 1.
\<close>

definition launch :: "console \<Rightarrow> unit proc \<Rightarrow> console" where
  "launch s p =
     (case run_to_await p of
        (evs, Ended (Finished _)) \<Rightarrow> s\<lparr>events := events s @ evs\<rparr>
      | (evs, Ended (Uncaught e)) \<Rightarrow> s\<lparr>events := events s @ evs, exit_code := Some 1\<rparr>
      | (evs, Ended (Exited n)) \<Rightarrow> s\<lparr>events := events s @ evs, exit_code := Some n\<rparr>
      | (evs, Awaiting c k) \<Rightarrow> s\<lparr>events := events s @ evs, pending := pending s @ [k]\<rparr>)"

definition step ::
  "(jsstring \<Rightarrow> exn + byte list) \<Rightarrow> identity \<Rightarrow> console \<Rightarrow> stimulus \<Rightarrow> console" where
  "step enc ident s x =
     (if exit_code s \<noteq> None then s
      else case x of
        Line input \<Rightarrow> launch s (on_line enc ident input)
      | Sigint \<Rightarrow> launch s on_sigint
      | Settled i r \<Rightarrow>
          if i < length (pending s)
          then launch (s\<lparr>pending := take i (pending s) @ drop (Suc i) (pending s)\<rparr>)
                 ((pending s ! i) r)
          else s)"

definition run_console ::
  "(jsstring \<Rightarrow> exn + byte list) \<Rightarrow> identity \<Rightarrow> stimulus list \<Rightarrow> console" where
  "run_console enc ident xs = foldl (step enc ident) initial xs"

text \<open>The number of calls of \<open>node.stop()\<close> among the events.\<close>

definition stop_calls :: "event list \<Rightarrow> nat" where
  "stop_calls evs = length (filter (\<lambda>ev. ev = Call NodeStop) evs)"

text \<open>The lines whose verb is \<open>quit\<close>, and the stimuli that start a shutdown.\<close>

definition quit_line :: "jsstring \<Rightarrow> bool" where
  "quit_line input =
     (case split_space (trim input) of [] \<Rightarrow> False | command # args \<Rightarrow> command = js ''quit'')"

fun shutdown_trigger :: "stimulus \<Rightarrow> bool" where
  "shutdown_trigger (Line input) = quit_line input"
| "shutdown_trigger Sigint = True"
| "shutdown_trigger (Settled i r) = False"

text \<open>Fixed values for the examples.\<close>

definition no_identity :: identity where
  "no_identity = \<lparr>id' = [], addresses = []\<rparr>"

definition no_bytes :: "jsstring \<Rightarrow> exn + byte list" where
  "no_bytes s = Inr []"

section \<open>Ports and the node's options (index.js, lines 7 to 44)\<close>

text \<open>
  JavaScript numbers are IEEE 754 binary64 values, and every arithmetic operation rounds
  its exact result to the nearest such value, ties to the even significand. The values
  are modelled as rationals and the rounding is written out; magnitudes here are far
  below \<open>2 ^ 1024\<close>, so overflow to infinity does not occur.

  \<open>ilog2 n\<close> is the position of the highest bit of n, \<open>clog2 n\<close> the least k with
  \<open>n \<le> 2 ^ k\<close>, and \<open>exponent x\<close> the binary exponent of a positive x:
  \<open>2 ^ exponent x \<le> x < 2 ^ (exponent x + 1)\<close>.
\<close>

fun ilog2 :: "nat \<Rightarrow> nat" where
  "ilog2 n = (if n < 2 then 0 else Suc (ilog2 (n div 2)))"

declare ilog2.simps [simp del]

definition clog2 :: "nat \<Rightarrow> nat" where
  "clog2 n = (if n \<le> 1 then 0 else Suc (ilog2 (n - 1)))"

definition exponent :: "rat \<Rightarrow> int" where
  "exponent x = (if 1 \<le> x then int (ilog2 (nat \<lfloor>x\<rfloor>)) else - int (clog2 (nat \<lceil>1 / x\<rceil>)))"

definition round_half_even :: "rat \<Rightarrow> int" where
  "round_half_even q =
     (let f = \<lfloor>q\<rfloor>; d = q - of_int f
      in if d < 1 / 2 then f else if 1 / 2 < d then f + 1 else if even f then f else f + 1)"

definition fl64 :: "rat \<Rightarrow> rat" where
  "fl64 x =
     (let e = max (exponent \<bar>x\<bar>) (- 1022) - 52
      in of_int (round_half_even (x / 2 powi e)) * 2 powi e)"

text \<open>
  \<open>Math.floor(Math.random() * (max - min) + min)\<close>, as a function of the value that
  \<open>Math.random()\<close> returns.
\<close>

definition getRandomPort :: "int \<Rightarrow> int \<Rightarrow> rat \<Rightarrow> int" where
  "getRandomPort mn mx random =
     \<lfloor>fl64 (fl64 (random * fl64 (of_int mx - of_int mn)) + of_int mn)\<rfloor>"

record ports =
  swarmPort :: int
  wsPort :: int
  apiPort :: int
  gatewayPort :: int

text \<open>The four ports of \<open>main\<close>, from the four values of \<open>Math.random()\<close> in call order.\<close>

definition generate_ports :: "rat \<Rightarrow> rat \<Rightarrow> rat \<Rightarrow> rat \<Rightarrow> ports" where
  "generate_ports r1 r2 r3 r4 =
     \<lparr>swarmPort = getRandomPort 4002 4999 r1,
      wsPort = getRandomPort 5000 5999 r2,
      apiPort = getRandomPort 6000 6999 r3,
      gatewayPort = getRandomPort 7000 7999 r4\<rparr>"

text \<open>The argument of \<open>create\<close>.\<close>

record options =
  repo :: jsstring
  Swarm :: "jsstring list"
  API :: jsstring
  Gateway :: jsstring
  Bootstrap :: "jsstring list"
  Pubsub_Enabled :: bool
  Pubsub_Router :: jsstring
  start :: bool

definition main_options :: "ports \<Rightarrow> options" where
  "main_options p =
     (let repoPath = js ''./ipfs-repo-'' @ number_to_string (swarmPort p) in
      \<lparr>repo = repoPath,
       Swarm = [js ''/ip4/0.0.0.0/tcp/'' @ number_to_string (swarmPort p),
                js ''/ip4/127.0.0.1/tcp/'' @ number_to_string (wsPort p) @ js ''/ws''],
       API = js ''/ip4/127.0.0.1/tcp/'' @ number_to_string (apiPort p),
       Gateway = js ''/ip4/127.0.0.1/tcp/'' @ number_to_string (gatewayPort p),
       Bootstrap =
         [js ''/dnsaddr/bootstrap.libp2p.io/p2p/QmNnooDu7bfjPFoTZYxMNLWUQJyrVwtbZg5gBMjTezGAJN'',
          js ''/dnsaddr/bootstrap.libp2p.io/p2p/QmQCU2EcMqAqQPR2i9bChDtGNJchTbq5TbXJJ16u19uLTa'',
          js ''/dnsaddr/bootstrap.libp2p.io/p2p/QmbLHAnMoJPWSCR5Zhtx6BHJX9KiKNN6tpvbUcqanj75Nb''],
       Pubsub_Enabled = True,
       Pubsub_Router = js ''gossipsub'',
       start = True\<rparr>)"

section \<open>Text and bytes (package uint8arrays)\<close>

text \<open>
  \<open>index.js\<close> imports \<open>fromString\<close> and \<open>toString\<close> from the package \<open>uint8arrays\<close>
  and calls both with the default encoding. The package is not part of the repository.
  The specification describes the pair as the encoding of text into wire bytes and back,
  the identity on UTF-8-safe strings, with payloads assumed to be UTF-8 text; the
  definitions of this section follow that description: the UTF-8 encoding of a UTF-16
  string, and the UTF-8 decoding that puts U+FFFD in place of each malformed sequence
  and does not fail.
\<close>

text \<open>
  Modelled from the spec: the surrogate ranges of UTF-16, used by the missing
  \<open>fromString\<close> to read a string as code points.
\<close>

definition is_high :: "code_unit \<Rightarrow> bool" where
  "is_high u = (0xD800 \<le> unat u \<and> unat u \<le> 0xDBFF)"

text \<open>
  Modelled from the spec: the low surrogates, for the missing \<open>fromString\<close>.
\<close>

definition is_low :: "code_unit \<Rightarrow> bool" where
  "is_low u = (0xDC00 \<le> unat u \<and> unat u \<le> 0xDFFF)"

text \<open>
  Modelled from the spec: the code points of a string, as the missing \<open>fromString\<close>
  reads them: a high surrogate followed by a low one is one code point, a surrogate
  on its own is read as U+FFFD.
\<close>

fun code_points :: "jsstring \<Rightarrow> nat list" where
  "code_points [] = []"
| "code_points [u] = [if is_high u \<or> is_low u then 0xFFFD else unat u]"
| "code_points (u # v # us) =
     (if is_high u \<and> is_low v
      then (0x10000 + (unat u - 0xD800) * 0x400 + (unat v - 0xDC00)) # code_points us
      else (if is_high u \<or> is_low u then 0xFFFD else unat u) # code_points (v # us))"

text \<open>
  Modelled from the spec: the one to four bytes that the missing \<open>fromString\<close> writes
  for a code point.
\<close>

definition utf8_bytes :: "nat \<Rightarrow> byte list" where
  "utf8_bytes c =
     (if c < 0x80 then [of_nat c]
      else if c < 0x800 then [of_nat (0xC0 + c div 0x40), of_nat (0x80 + c mod 0x40)]
      else if c < 0x10000 then
        [of_nat (0xE0 + c div 0x1000), of_nat (0x80 + c div 0x40 mod 0x40),
         of_nat (0x80 + c mod 0x40)]
      else
        [of_nat (0xF0 + c div 0x40000), of_nat (0x80 + c div 0x1000 mod 0x40),
         of_nat (0x80 + c div 0x40 mod 0x40), of_nat (0x80 + c mod 0x40)])"

text \<open>
  Modelled from the spec: \<open>fromString\<close> of \<open>uint8arrays\<close>, missing from the
  repository; the text as UTF-8 bytes.
\<close>

definition uint8ArrayFromString :: "jsstring \<Rightarrow> byte list" where
  "uint8ArrayFromString s = concat (map utf8_bytes (code_points s))"

text \<open>
  Modelled from the spec: the decoding loop of the missing \<open>toString\<close>. The state is the
  code point collected so far, the number of continuation bytes still needed, and the
  range allowed for the next byte; \<open>n mod 0x40\<close> is \<open>n & 0x3F\<close>. A byte that cannot
  continue a sequence ends it with U+FFFD and is read again as the start of the next.
\<close>

function utf8_decode :: "nat \<Rightarrow> nat \<Rightarrow> nat \<Rightarrow> nat \<Rightarrow> byte list \<Rightarrow> nat list" where
  "utf8_decode cp needed lo hi [] = (if needed = 0 then [] else [0xFFFD])"
| "utf8_decode cp needed lo hi (b # bs) =
     (let n = unat b in
      if needed = 0 then
        (if n \<le> 0x7F then n # utf8_decode 0 0 0x80 0xBF bs
         else if 0xC2 \<le> n \<and> n \<le> 0xDF then utf8_decode (n mod 0x20) 1 0x80 0xBF bs
         else if 0xE0 \<le> n \<and> n \<le> 0xEF then
           utf8_decode (n mod 0x10) 2 (if n = 0xE0 then 0xA0 else 0x80)
             (if n = 0xED then 0x9F else 0xBF) bs
         else if 0xF0 \<le> n \<and> n \<le> 0xF4 then
           utf8_decode (n mod 8) 3 (if n = 0xF0 then 0x90 else 0x80)
             (if n = 0xF4 then 0x8F else 0xBF) bs
         else 0xFFFD # utf8_decode 0 0 0x80 0xBF bs)
      else if n < lo \<or> hi < n then 0xFFFD # utf8_decode 0 0 0x80 0xBF (b # bs)
      else if needed = 1 then (cp * 0x40 + n mod 0x40) # utf8_decode 0 0 0x80 0xBF bs
      else utf8_decode (cp * 0x40 + n mod 0x40) (needed - 1) 0x80 0xBF bs)"
  by pat_completeness auto
termination
  by (relation "measure (\<lambda>(cp, needed, lo, hi, bs). 2 * length bs + (if needed = 0 then 0 else 1))")
     auto

declare utf8_decode.simps(2) [simp del]

text \<open>
  Modelled from the spec: the code units that the missing \<open>toString\<close> writes for a
  code point.
\<close>

definition utf16_units :: "nat \<Rightarrow> jsstring" where
  "utf16_units c =
     (if c < 0x10000 then [of_nat c]
      else [of_nat (0xD800 + (c - 0x10000) div 0x400), of_nat (0xDC00 + (c - 0x10000) mod 0x400)])"

text \<open>
  Modelled from the spec: \<open>toString\<close> of \<open>uint8arrays\<close>, missing from the repository;
  the bytes read as UTF-8.
\<close>

definition uint8ArrayToString :: "byte list \<Rightarrow> jsstring" where
  "uint8ArrayToString bytes = concat (map utf16_units (utf8_decode 0 0 0x80 0xBF bytes))"

text \<open>
  The UTF-8-safe strings: every surrogate is half of a pair, so that the string has an
  encoding in UTF-8. The scalar values are the code points of such strings.
\<close>

fun utf8_safe :: "jsstring \<Rightarrow> bool" where
  "utf8_safe [] = True"
| "utf8_safe [u] = (\<not> is_high u \<and> \<not> is_low u)"
| "utf8_safe (u # v # us) =
     (if is_high u then is_low v \<and> utf8_safe us else \<not> is_low u \<and> utf8_safe (v # us))"

definition scalar :: "nat \<Rightarrow> bool" where
  "scalar c = (c < 0x110000 \<and> \<not> (0xD800 \<le> c \<and> c \<le> 0xDFFF))"

text \<open>
  A decoder that throws on malformed input instead of replacing it: it accepts exactly
  the byte sequences that are the encoding of the text they decode to.
\<close>

definition fatal_decoder :: "byte list \<Rightarrow> exn + jsstring" where
  "fatal_decoder bytes =
     (if uint8ArrayFromString (uint8ArrayToString bytes) = bytes
      then Inr (uint8ArrayToString bytes)
      else Inl (TypeError (js ''The encoded data was not valid'')))"

section \<open>The subscription callback (index.js, lines 73 to 77)\<close>

text \<open>
  The message handed to the callback, and the callback that \<open>subscribe\<close> registers for a
  topic. \<open>uint8ArrayToString\<close> is the parameter \<open>dec\<close>, a function that returns the text
  or throws. The callback ends with \<open>console.log(template, data)\<close>, where the template
  holds the topic and the sender and is the format string of the call.
\<close>

record message =
  msg_from :: jsstring
  msg_data :: "byte list"

definition message_callback ::
  "(byte list \<Rightarrow> exn + jsstring) \<Rightarrow> jsstring \<Rightarrow> message \<Rightarrow> unit proc" where
  "message_callback dec topic msg =
     (let from_peer = msg_from msg in
      bind (of_result (dec (msg_data msg))) (\<lambda>data.
      Out (LogFormat
             (js ''\<newline>Received message on '' @ topic @ js '' from '' @ from_peer @ js '':'')
             data)
        (Return ())))"

section \<open>Shapes of listeners\<close>

text \<open>
  Three properties of a resumption, used to describe the listeners: every event it
  writes itself satisfies \<open>P\<close>; it never awaits; it awaits at most once.
\<close>

primrec writes :: "(event \<Rightarrow> bool) \<Rightarrow> 'a proc \<Rightarrow> bool" where
  "writes P (Return x) = True"
| "writes P (Throw e) = True"
| "writes P (Out ev p) = (P ev \<and> writes P p)"
| "writes P (Exit n) = True"
| "writes P (Await c k) = (\<forall>r. writes P (k r))"

primrec quiet :: "'a proc \<Rightarrow> bool" where
  "quiet (Return x) = True"
| "quiet (Throw e) = True"
| "quiet (Out ev p) = quiet p"
| "quiet (Exit n) = True"
| "quiet (Await c k) = False"

primrec awaits_once :: "'a proc \<Rightarrow> bool" where
  "awaits_once (Return x) = True"
| "awaits_once (Throw e) = True"
| "awaits_once (Out ev p) = awaits_once p"
| "awaits_once (Exit n) = True"
| "awaits_once (Await c k) = (\<forall>r. quiet (k r))"

fun console_output :: "event \<Rightarrow> bool" where
  "console_output (Log s) = True"
| "console_output (LogFormat f x) = True"
| "console_output (ErrorLog l e) = True"
| "console_output Prompt = True"
| "console_output (Call c) = False"
| "console_output (ProcessExit n) = False"

text \<open>
  The state of a console in which every suspended listener, once its call settles, goes on
  to its end without another call on the node.
\<close>

definition settled_quietly :: "console \<Rightarrow> bool" where
  "settled_quietly s = (\<forall>k \<in> set (pending s). \<forall>r. quiet (k r) \<and> writes console_output (k r))"

text \<open>
  Two more shapes: a resumption that returns normally without awaiting, and one that
  does so after at most one await. In an undisturbed console the process is running
  and every suspended listener will return once its call settles.
\<close>

primrec returns :: "'a proc \<Rightarrow> bool" where
  "returns (Return x) = True"
| "returns (Throw e) = False"
| "returns (Out ev p) = returns p"
| "returns (Exit n) = False"
| "returns (Await c k) = False"

primrec returns_after_await :: "'a proc \<Rightarrow> bool" where
  "returns_after_await (Return x) = True"
| "returns_after_await (Throw e) = False"
| "returns_after_await (Out ev p) = returns_after_await p"
| "returns_after_await (Exit n) = False"
| "returns_after_await (Await c k) = (\<forall>r. returns (k r))"

definition undisturbed :: "console \<Rightarrow> bool" where
  "undisturbed s = (exit_code s = None \<and> (\<forall>k \<in> set (pending s). \<forall>r. returns (k r)))"

section \<open>Properties\<close>

lemma js_eq_iff [simp]: "js a = js b \<longleftrightarrow> a = b"
proof -
  have "inj (\<lambda>c. (of_nat (of_char c) :: code_unit))"
  proof (rule injI)
    fix c d :: char
    assume h: "(of_nat (of_char c) :: code_unit) = of_nat (of_char d)"
    have bc: "(of_char c :: nat) < 2 ^ 16" and bd: "(of_char d :: nat) < 2 ^ 16"
      by (cases c, simp add: of_char_def)+
    from h have "unat (of_nat (of_char c) :: code_unit) = unat (of_nat (of_char d) :: code_unit)"
      by simp
    with bc bd have "(of_char c :: nat) = of_char d"
      by (simp add: unat_of_nat)
    then show "c = d" by (simp add: inj_eq [OF inj_of_char])
  qed
  then show ?thesis by (simp add: js_def inj_map_eq_map)
qed

lemma split_trim_pub_news:
  "split_space (trim (js ''pub news'')) = [js ''pub'', js ''news'']"
  by (simp add: js_def trim_def is_js_space_def)

lemma split_trim_pub_news_hello:
  "split_space (trim (js ''pub news  hello'')) = [js ''pub'', js ''news'', [], js ''hello'']"
  by (simp add: js_def trim_def is_js_space_def)


subsection \<open>Running composed listeners\<close>

lemma run_with_bind:
  "run_with node (bind p f) =
     (case snd (run_with node p) of
        Finished x \<Rightarrow> (fst (run_with node p) @ fst (run_with node (f x)), snd (run_with node (f x)))
      | Uncaught e \<Rightarrow> (fst (run_with node p), Uncaught e)
      | Exited n \<Rightarrow> (fst (run_with node p), Exited n))"
  by (induction p) (auto split: ending.splits)

lemma run_with_try_catch:
  "run_with node (try_catch p h) =
     (case snd (run_with node p) of
        Finished x \<Rightarrow> (fst (run_with node p), Finished x)
      | Uncaught e \<Rightarrow> (fst (run_with node p) @ fst (run_with node (h e)), snd (run_with node (h e)))
      | Exited n \<Rightarrow> (fst (run_with node p), Exited n))"
  by (induction p) (auto split: ending.splits)

lemma run_to_await_bind:
  "run_to_await (bind p f) =
     (case snd (run_to_await p) of
        Ended (Finished x) \<Rightarrow>
          (fst (run_to_await p) @ fst (run_to_await (f x)), snd (run_to_await (f x)))
      | Ended (Uncaught e) \<Rightarrow> (fst (run_to_await p), Ended (Uncaught e))
      | Ended (Exited n) \<Rightarrow> (fst (run_to_await p), Ended (Exited n))
      | Awaiting c k \<Rightarrow> (fst (run_to_await p), Awaiting c (\<lambda>r. bind (k r) f)))"
  by (induction p) (auto split: pause.splits ending.splits)

lemma run_to_await_try_catch:
  "run_to_await (try_catch p h) =
     (case snd (run_to_await p) of
        Ended (Finished x) \<Rightarrow> (fst (run_to_await p), Ended (Finished x))
      | Ended (Uncaught e) \<Rightarrow>
          (fst (run_to_await p) @ fst (run_to_await (h e)), snd (run_to_await (h e)))
      | Ended (Exited n) \<Rightarrow> (fst (run_to_await p), Ended (Exited n))
      | Awaiting c k \<Rightarrow> (fst (run_to_await p), Awaiting c (\<lambda>r. try_catch (k r) h)))"
  by (induction p) (auto split: pause.splits ending.splits)

lemma run_to_await_log_each:
  "snd (run_to_await (log_each f xs)) = Ended (Finished ())"
  by (induction xs) auto


subsection \<open>The shapes of the listeners of index.js\<close>

lemma quiet_bind: "quiet p \<Longrightarrow> (\<And>x. quiet (f x)) \<Longrightarrow> quiet (bind p f)"
  by (induction p) auto

lemma quiet_try_catch: "quiet p \<Longrightarrow> (\<And>e. quiet (h e)) \<Longrightarrow> quiet (try_catch p h)"
  by (induction p) auto

lemma quiet_log_each [simp]: "quiet (log_each f xs)"
  by (induction xs) auto

lemma quiet_names_of [simp]: "quiet (names_of r)"
  by (auto simp: names_of_def split: outcome.splits)

lemma quiet_peers_of [simp]: "quiet (peers_of r)"
  by (auto simp: peers_of_def split: outcome.splits)

lemma quiet_of_result [simp]: "quiet (of_result r)"
  by (auto simp: of_result_def split: sum.splits)

lemma quiet_console_log [simp]: "quiet (console_log s)"
  by (simp add: console_log_def)

lemma quiet_console_error [simp]: "quiet (console_error l e)"
  by (simp add: console_error_def)

lemma awaits_once_quiet: "quiet p \<Longrightarrow> awaits_once p"
  by (induction p) auto

lemma awaits_once_then: "awaits_once p \<Longrightarrow> (\<And>x. quiet (f x)) \<Longrightarrow> awaits_once (bind p f)"
  by (induction p) (auto intro: quiet_bind awaits_once_quiet)

lemma awaits_once_after: "quiet p \<Longrightarrow> (\<And>x. awaits_once (f x)) \<Longrightarrow> awaits_once (bind p f)"
  by (induction p) auto

lemma awaits_once_try_catch:
  "awaits_once p \<Longrightarrow> (\<And>e. quiet (h e)) \<Longrightarrow> awaits_once (try_catch p h)"
  by (induction p) (auto intro: quiet_try_catch awaits_once_quiet)

lemma awaits_once_await [simp]: "awaits_once (await c)"
  by (auto simp: await_def split: outcome.splits)

lemma awaits_once_subscribe: "awaits_once (pubsub_subscribe topic)"
  unfolding pubsub_subscribe_def
  by (intro awaits_once_try_catch awaits_once_then) simp_all

lemma awaits_once_publish: "awaits_once (pubsub_publish enc topic message)"
  unfolding pubsub_publish_def
  by (intro awaits_once_try_catch awaits_once_after awaits_once_then) simp_all

lemma awaits_once_listTopics: "awaits_once pubsub_listTopics"
  unfolding pubsub_listTopics_def
  by (intro awaits_once_try_catch awaits_once_then quiet_bind) simp_all

lemma awaits_once_listPeers: "awaits_once (pubsub_listPeers topic)"
  unfolding pubsub_listPeers_def
  by (intro awaits_once_try_catch awaits_once_then quiet_bind) simp_all

lemma awaits_once_processCommand: "awaits_once (processCommand enc ident input)"
proof -
  have swarm: "awaits_once (bind (await SwarmPeers) (\<lambda>r.
            bind (peers_of r) (\<lambda>peers.
            bind (console_log (js ''\<newline>Connected peers: '' @
                                 number_to_string (int (length peers)))) (\<lambda>_.
            log_each (\<lambda>peer. js ''- '' @ fst peer @ js '': '' @ snd peer) peers))))"
    by (intro awaits_once_then quiet_bind) simp_all
  have quit: "awaits_once (bind (console_log (js ''Shutting down...'')) (\<lambda>_.
            bind (await NodeStop) (\<lambda>_. Exit 0 :: unit proc)))"
    by (intro awaits_once_after awaits_once_then) simp_all
  have info: "quiet (bind (console_log (js ''\<newline>Node ID: '' @ id' ident)) (\<lambda>_.
            bind (console_log (js ''Addresses:'')) (\<lambda>_.
            log_each (\<lambda>addr. js ''- '' @ addr) (addresses ident))))"
    by (intro quiet_bind) simp_all
  show ?thesis
    unfolding processCommand_def Let_def
    using swarm quit info
    by (auto split: list.splits
        intro: awaits_once_quiet awaits_once_subscribe awaits_once_publish
          awaits_once_listTopics awaits_once_listPeers)
qed

lemma awaits_once_on_line: "awaits_once (on_line enc ident input)"
  unfolding on_line_def
  by (intro awaits_once_then awaits_once_try_catch awaits_once_processCommand) simp_all

lemma awaits_once_on_sigint: "awaits_once on_sigint"
  unfolding on_sigint_def
  by (intro awaits_once_after awaits_once_then) simp_all


lemma writes_bind: "writes P p \<Longrightarrow> (\<And>x. writes P (f x)) \<Longrightarrow> writes P (bind p f)"
  by (induction p) auto

lemma writes_try_catch: "writes P p \<Longrightarrow> (\<And>e. writes P (h e)) \<Longrightarrow> writes P (try_catch p h)"
  by (induction p) auto

lemma writes_log_each: "(\<And>s. P (Log s)) \<Longrightarrow> writes P (log_each f xs)"
  by (induction xs) auto

lemma writes_await: "writes P (await c)"
  by (auto simp: await_def split: outcome.splits)

lemma writes_names_of: "writes P (names_of r)"
  by (auto simp: names_of_def split: outcome.splits)

lemma writes_peers_of: "writes P (peers_of r)"
  by (auto simp: peers_of_def split: outcome.splits)

lemma writes_of_result: "writes P (of_result r)"
  by (auto simp: of_result_def split: sum.splits)

lemma writes_console_log: "P (Log s) \<Longrightarrow> writes P (console_log s)"
  by (simp add: console_log_def)

lemma writes_console_error: "P (ErrorLog l e) \<Longrightarrow> writes P (console_error l e)"
  by (simp add: console_error_def)

lemmas writes_intros = writes_bind writes_try_catch writes_log_each writes_await writes_names_of
  writes_peers_of writes_of_result writes_console_log writes_console_error

lemma writes_processCommand:
  assumes "\<And>s. P (Log s)" and "\<And>l e. P (ErrorLog l e)"
  shows "writes P (processCommand enc ident input)"
  unfolding processCommand_def pubsub_subscribe_def pubsub_publish_def pubsub_listTopics_def
    pubsub_listPeers_def Let_def
  by (auto split: list.splits intro!: writes_intros assms)

lemma writes_on_line: "writes console_output (on_line enc ident input)"
  unfolding on_line_def
  by (intro writes_bind writes_try_catch writes_processCommand writes_console_error) simp_all

lemma writes_on_sigint: "writes console_output on_sigint"
  unfolding on_sigint_def
  by (intro writes_bind writes_await writes_console_log) simp_all

lemma resumed_quiet:
  "awaits_once p \<Longrightarrow> snd (run_to_await p) = Awaiting c k \<Longrightarrow> quiet (k r)"
  by (induction p) auto

lemma resumed_writes:
  "writes P p \<Longrightarrow> snd (run_to_await p) = Awaiting c k \<Longrightarrow> writes P (k r)"
  by (induction p) auto

lemma quiet_ends: "quiet p \<Longrightarrow> \<exists>e. snd (run_to_await p) = Ended e"
  by (induction p) auto

lemma quiet_no_stop:
  "quiet p \<Longrightarrow> writes console_output p \<Longrightarrow> stop_calls (fst (run_to_await p)) = 0"
  by (induction p) (auto simp: stop_calls_def)

lemma stop_calls_append [simp]: "stop_calls (xs @ ys) = stop_calls xs + stop_calls ys"
  by (simp add: stop_calls_def)

lemma prefix_stop_calls:
  "writes console_output p \<Longrightarrow>
   stop_calls (fst (run_to_await p)) =
     (if \<exists>k. snd (run_to_await p) = Awaiting NodeStop k then 1 else 0)"
  by (induction p) (auto simp: stop_calls_def)

lemma writes_run_with: "writes P p \<Longrightarrow> \<forall>ev \<in> set (fst (run_with node p)). P ev \<or> (\<exists>c. ev = Call c) \<or> (\<exists>n. ev = ProcessExit n)"
  by (induction p) auto

lemma on_line_awaits_stop:
  "(\<exists>k. snd (run_to_await (on_line enc ident input)) = Awaiting NodeStop k) \<longleftrightarrow> quit_line input"
  unfolding on_line_def processCommand_def quit_line_def pubsub_subscribe_def pubsub_publish_def
    pubsub_listTopics_def pubsub_listPeers_def
  by (auto simp: run_to_await_bind run_to_await_try_catch run_to_await_log_each await_def
      console_log_def console_error_def of_result_def Let_def split: list.splits sum.splits)

lemma on_sigint_awaits_stop: "\<exists>k. snd (run_to_await on_sigint) = Awaiting NodeStop k"
  by (simp add: on_sigint_def console_log_def await_def)

lemma events_launch: "events (launch s p) = events s @ fst (run_to_await p)"
  by (auto simp: launch_def split: prod.splits pause.splits ending.splits)

lemma settled_quietly_launch_quiet:
  "settled_quietly s \<Longrightarrow> quiet p \<Longrightarrow> settled_quietly (launch s p)"
  using quiet_ends [of p]
  by (auto simp: launch_def settled_quietly_def split: prod.splits pause.splits ending.splits)

lemma settled_quietly_launch:
  "settled_quietly s \<Longrightarrow> awaits_once p \<Longrightarrow> writes console_output p \<Longrightarrow> settled_quietly (launch s p)"
  by (auto simp: launch_def settled_quietly_def split: prod.splits pause.splits ending.splits
      dest: resumed_quiet resumed_writes)

lemma settled_quietly_remove:
  "settled_quietly s \<Longrightarrow> settled_quietly (s\<lparr>pending := take i (pending s) @ drop (Suc i) (pending s)\<rparr>)"
  by (auto simp: settled_quietly_def dest: in_set_takeD in_set_dropD)

lemma settled_quietly_step: "settled_quietly s \<Longrightarrow> settled_quietly (step enc ident s x)"
proof (cases x)
  case (Line input)
  assume "settled_quietly s"
  then show ?thesis
    using Line by (simp add: step_def settled_quietly_launch awaits_once_on_line writes_on_line)
next
  case Sigint
  assume "settled_quietly s"
  then show ?thesis
    using Sigint by (simp add: step_def settled_quietly_launch awaits_once_on_sigint writes_on_sigint)
next
  case (Settled i r)
  assume h: "settled_quietly s"
  show ?thesis
  proof (cases "exit_code s = None \<and> i < length (pending s)")
    case True
    then have "pending s ! i \<in> set (pending s)" by simp
    with h have "quiet ((pending s ! i) r)" by (simp add: settled_quietly_def)
    then show ?thesis
      using True Settled h
      by (simp add: step_def settled_quietly_launch_quiet settled_quietly_remove)
  next
    case False
    then show ?thesis using Settled h by (auto simp: step_def)
  qed
qed

lemma settled_quietly_run: "settled_quietly (run_console enc ident xs)"
  by (induction xs rule: rev_induct)
     (simp_all add: run_console_def settled_quietly_step, simp add: initial_def settled_quietly_def)

lemma step_stop_calls:
  assumes "settled_quietly s"
  shows "stop_calls (events (step enc ident s x)) =
           stop_calls (events s) + (if exit_code s = None \<and> shutdown_trigger x then 1 else 0)"
proof (cases "exit_code s = None")
  case False
  then show ?thesis by (simp add: step_def)
next
  case alive: True
  show ?thesis
  proof (cases x)
    case (Line input)
    then show ?thesis
      using alive prefix_stop_calls [OF writes_on_line, of enc ident input]
      by (simp add: step_def events_launch on_line_awaits_stop)
  next
    case Sigint
    then show ?thesis
      using alive prefix_stop_calls [OF writes_on_sigint] on_sigint_awaits_stop
      by (simp add: step_def events_launch)
  next
    case (Settled i r)
    show ?thesis
    proof (cases "i < length (pending s)")
      case True
      then have "pending s ! i \<in> set (pending s)" by simp
      with assms have "quiet ((pending s ! i) r)" "writes console_output ((pending s ! i) r)"
        by (simp_all add: settled_quietly_def)
      then show ?thesis
        using alive Settled True by (simp add: step_def events_launch quiet_no_stop)
    next
      case False
      then show ?thesis using alive Settled by (simp add: step_def)
    qed
  qed
qed

lemma try_catch_log_each: "try_catch (log_each f xs) h = log_each f xs"
  by (induction xs) auto

lemma returns_bind_log_each: "returns (bind (log_each f xs) g) = returns (g ())"
  by (induction xs) auto

lemma returns_after_await_bind_log_each:
  "returns_after_await (bind (log_each f xs) g) = returns_after_await (g ())"
  by (induction xs) auto

lemma returns_after_await_on_line:
  "\<not> quit_line input \<Longrightarrow> returns_after_await (on_line enc ident input)"
  unfolding on_line_def processCommand_def quit_line_def pubsub_subscribe_def pubsub_publish_def
    pubsub_listTopics_def pubsub_listPeers_def names_of_def peers_of_def
  by (auto simp: await_def console_log_def console_error_def of_result_def Let_def
      try_catch_log_each returns_bind_log_each returns_after_await_bind_log_each
      split: list.splits sum.splits outcome.splits)

lemma returns_ends: "returns p \<Longrightarrow> snd (run_to_await p) = Ended (Finished ())"
  by (induction p) auto

lemma returns_after_await_pause:
  "returns_after_await p \<Longrightarrow>
   snd (run_to_await p) = Ended (Finished ()) \<or>
   (\<exists>c k. snd (run_to_await p) = Awaiting c k \<and> (\<forall>r. returns (k r)))"
  by (induction p) auto

lemma undisturbed_launch:
  assumes "undisturbed s" and "returns_after_await p"
  shows "undisturbed (launch s p)"
  using assms returns_after_await_pause [OF assms(2)]
  by (auto simp: undisturbed_def launch_def split: prod.splits pause.splits ending.splits)

lemma undisturbed_remove:
  "undisturbed s \<Longrightarrow>
   undisturbed (s\<lparr>pending := take i (pending s) @ drop (Suc i) (pending s)\<rparr>)"
  by (auto simp: undisturbed_def dest: in_set_takeD in_set_dropD)

lemma returns_imp_after: "returns p \<Longrightarrow> returns_after_await p"
  by (induction p) auto

lemma undisturbed_step:
  assumes "undisturbed s" and "\<not> shutdown_trigger x"
  shows "undisturbed (step enc ident s x)"
proof (cases x)
  case (Line input)
  then show ?thesis
    using assms by (simp add: step_def undisturbed_launch returns_after_await_on_line)
next
  case Sigint
  then show ?thesis using assms by simp
next
  case (Settled i r)
  show ?thesis
  proof (cases "i < length (pending s)")
    case True
    then have "pending s ! i \<in> set (pending s)" by simp
    with assms(1) have "returns ((pending s ! i) r)" by (simp add: undisturbed_def)
    then show ?thesis
      using True Settled assms(1)
      by (simp add: step_def undisturbed_launch undisturbed_remove returns_imp_after)
  next
    case False
    then show ?thesis using Settled assms(1) by (simp add: step_def)
  qed
qed

lemma undisturbed_run:
  "\<forall>x \<in> set xs. \<not> shutdown_trigger x \<Longrightarrow> undisturbed (run_console enc ident xs)"
proof (induction xs rule: rev_induct)
  case Nil
  then show ?case by (simp add: run_console_def initial_def undisturbed_def)
next
  case (snoc x xs)
  then show ?case by (simp add: run_console_def undisturbed_step)
qed

lemma no_trigger_no_stop:
  "\<forall>x \<in> set xs. \<not> shutdown_trigger x \<Longrightarrow> stop_calls (events (run_console enc ident xs)) = 0"
proof (induction xs rule: rev_induct)
  case Nil
  then show ?case by (simp add: run_console_def initial_def stop_calls_def)
next
  case (snoc x xs)
  have "stop_calls (events (step enc ident (run_console enc ident xs) x)) =
          stop_calls (events (run_console enc ident xs))"
    using snoc.prems by (simp add: step_stop_calls [OF settled_quietly_run])
  then show ?case using snoc by (simp add: run_console_def)
qed

lemma one_trigger_one_stop:
  "length (filter shutdown_trigger xs) = 1 \<Longrightarrow>
   stop_calls (events (run_console enc ident xs)) = 1"
proof (induction xs rule: rev_induct)
  case Nil
  then show ?case by simp
next
  case (snoc x xs)
  have unfold: "run_console enc ident (xs @ [x]) = step enc ident (run_console enc ident xs) x"
    by (simp add: run_console_def)
  show ?case
  proof (cases "shutdown_trigger x")
    case True
    with snoc.prems have none: "\<forall>y \<in> set xs. \<not> shutdown_trigger y"
      by (simp add: filter_empty_conv)
    then have "exit_code (run_console enc ident xs) = None"
      using undisturbed_run [of xs enc ident] by (simp add: undisturbed_def)
    then show ?thesis
      using True no_trigger_no_stop [OF none, of enc ident]
      by (simp add: unfold step_stop_calls [OF settled_quietly_run])
  next
    case False
    with snoc.prems have "length (filter shutdown_trigger xs) = 1" by simp
    then have "stop_calls (events (run_console enc ident xs)) = 1" by (rule snoc.IH)
    then show ?thesis
      using False by (simp add: unfold step_stop_calls [OF settled_quietly_run])
  qed
qed

subsection \<open>Arity of \<open>pub\<close>\<close>

text \<open>
  C4. A line that parses to the verb \<open>pub\<close> and one argument, a topic with no message,
  makes the console print the usage line of \<open>pub\<close> and then prompt again: these are the
  only events, so no call is made on the node and publish is not reached, however the
  node would have answered.
\<close>

theorem pub_one_argument_usage:
  assumes "split_space (trim input) = [js ''pub'', topic]"
  shows "run_with node (on_line enc ident input) =
           ([Log (js ''Usage: pub <topic> <message>''), Prompt], Finished ())"
  using assms by (simp add: on_line_def processCommand_def missing_def console_log_def)

theorem pub_one_argument_usage_witness:
  "split_space (trim (js ''pub news'')) = [js ''pub'', js ''news''] \<and>
   run_with (\<lambda>c. Resolved) (on_line no_bytes no_identity (js ''pub news'')) =
     ([Log (js ''Usage: pub <topic> <message>''), Prompt], Finished ())"
  using pub_one_argument_usage [OF split_trim_pub_news] split_trim_pub_news by simp

text \<open>
  C10. A line that parses to the verb \<open>pub\<close>, a topic, an empty piece (two spaces in a
  row after the topic) and any further pieces is refused in the same way: the guard
  \<open>!args[1]\<close> is true of the empty string, so the usage line is printed and publish is
  not reached, although message text follows.
\<close>

theorem pub_empty_second_argument_usage:
  assumes "split_space (trim input) = js ''pub'' # topic # [] # rest"
  shows "run_with node (on_line enc ident input) =
           ([Log (js ''Usage: pub <topic> <message>''), Prompt], Finished ())"
  using assms by (simp add: on_line_def processCommand_def missing_def console_log_def)

theorem pub_empty_second_argument_usage_witness:
  "split_space (trim (js ''pub news  hello'')) = js ''pub'' # js ''news'' # [] # [js ''hello''] \<and>
   run_with (\<lambda>c. Resolved)
     (on_line no_bytes no_identity (js ''pub news  hello'')) =
     ([Log (js ''Usage: pub <topic> <message>''), Prompt], Finished ())"
  using pub_empty_second_argument_usage [OF split_trim_pub_news_hello]
    split_trim_pub_news_hello by simp

subsection \<open>Failures of the node in the pubsub interface\<close>



subsection \<open>Shutdown\<close>

lemma split_trim_quit: "split_space (trim (js ''quit'')) = js ''quit'' # []"
  by (simp add: js_def trim_def is_js_space_def)

text \<open>
  C9, as the specification states it, fails. When \<open>node.stop()\<close> rejects,
  \<open>process.exit(0)\<close> is not reached on either path: the listener of the line \<open>quit\<close>
  catches the rejection, reports it and prompts again, and the process goes on; the
  listener of SIGINT has no handler, its rejection is unhandled and the process ends
  with code 1.
\<close>

theorem rejected_stop_no_exit_0:
  "run_with (\<lambda>c. Rejected (Error (js ''stop failed'')))
     (on_line no_bytes no_identity (js ''quit'')) =
     ([Log (js ''Shutting down...''), Call NodeStop,
       ErrorLog (js ''Error processing command:'') (Error (js ''stop failed'')), Prompt],
      Finished ())
   \<and> run_with (\<lambda>c. Rejected (Error (js ''stop failed''))) on_sigint =
     ([Log (js ''\<newline>Shutting down IPFS node...''), Call NodeStop],
      Uncaught (Error (js ''stop failed'')))
   \<and> exit_code (run_console no_bytes no_identity
       [Line (js ''quit''), Settled 0 (Rejected (Error (js ''stop failed'')))]) = None
   \<and> exit_code (run_console no_bytes no_identity
       [Sigint, Settled 0 (Rejected (Error (js ''stop failed'')))]) = Some 1"
  by (simp add: run_console_def step_def initial_def launch_def on_line_def processCommand_def
      js_def trim_def is_js_space_def on_sigint_def console_log_def console_error_def
      await_def)

text \<open>
  C9, amended. A line whose verb is \<open>quit\<close> makes the listener write its shutdown line
  and call \<open>node.stop()\<close>; when the stop resolves the process ends with exit code 0, and
  when it rejects the listener reports \<open>Error processing command:\<close>, prompts again and
  the process goes on. The listener of SIGINT runs the same sequence, its shutdown line,
  the call of stop, then exit code 0 when the stop resolves; when the stop rejects its
  rejection is unhandled and the process ends with code 1.
\<close>

theorem quit_and_sigint_exit_0_when_stop_resolves:
  assumes "split_space (trim input) = js ''quit'' # args"
  shows "run_with node (on_line enc ident input) =
           (case node NodeStop of
              Rejected e \<Rightarrow>
                ([Log (js ''Shutting down...''), Call NodeStop,
                  ErrorLog (js ''Error processing command:'') e, Prompt], Finished ())
            | _ \<Rightarrow> ([Log (js ''Shutting down...''), Call NodeStop, ProcessExit 0], Exited 0))
       \<and> run_with node on_sigint =
           (case node NodeStop of
              Rejected e \<Rightarrow>
                ([Log (js ''\<newline>Shutting down IPFS node...''), Call NodeStop], Uncaught e)
            | _ \<Rightarrow>
                ([Log (js ''\<newline>Shutting down IPFS node...''), Call NodeStop, ProcessExit 0],
                 Exited 0))
       \<and> exit_code (run_console enc ident [Line input, Settled 0 r]) =
           (case r of Rejected e \<Rightarrow> None | _ \<Rightarrow> Some 0)
       \<and> exit_code (run_console enc ident [Sigint, Settled 0 r]) =
           (case r of Rejected e \<Rightarrow> Some 1 | _ \<Rightarrow> Some 0)"
proof (intro conjI)
  show "run_with node (on_line enc ident input) =
           (case node NodeStop of
              Rejected e \<Rightarrow>
                ([Log (js ''Shutting down...''), Call NodeStop,
                  ErrorLog (js ''Error processing command:'') e, Prompt], Finished ())
            | _ \<Rightarrow> ([Log (js ''Shutting down...''), Call NodeStop, ProcessExit 0], Exited 0))"
    using assms
    by (cases "node NodeStop")
       (simp_all add: on_line_def processCommand_def console_log_def console_error_def
          await_def)
next
  show "run_with node on_sigint =
           (case node NodeStop of
              Rejected e \<Rightarrow>
                ([Log (js ''\<newline>Shutting down IPFS node...''), Call NodeStop], Uncaught e)
            | _ \<Rightarrow>
                ([Log (js ''\<newline>Shutting down IPFS node...''), Call NodeStop, ProcessExit 0],
                 Exited 0))"
    by (cases "node NodeStop") (simp_all add: on_sigint_def console_log_def await_def)
next
  show "exit_code (run_console enc ident [Line input, Settled 0 r]) =
           (case r of Rejected e \<Rightarrow> None | _ \<Rightarrow> Some 0)"
    using assms
    by (cases r)
       (simp_all add: run_console_def step_def initial_def launch_def on_line_def
          processCommand_def console_log_def console_error_def await_def)
next
  show "exit_code (run_console enc ident [Sigint, Settled 0 r]) =
           (case r of Rejected e \<Rightarrow> Some 1 | _ \<Rightarrow> Some 0)"
    by (cases r)
       (simp_all add: run_console_def step_def initial_def launch_def on_sigint_def
          console_log_def await_def)
qed

theorem quit_and_sigint_exit_0_when_stop_resolves_witness:
  "split_space (trim (js ''quit'')) = js ''quit'' # [] \<and>
   run_with (\<lambda>c. Resolved) (on_line no_bytes no_identity (js ''quit'')) =
     ([Log (js ''Shutting down...''), Call NodeStop, ProcessExit 0], Exited 0) \<and>
   run_with (\<lambda>c. Resolved) on_sigint =
     ([Log (js ''\<newline>Shutting down IPFS node...''), Call NodeStop, ProcessExit 0],
      Exited 0) \<and>
   exit_code (run_console no_bytes no_identity [Line (js ''quit''), Settled 0 Resolved]) = Some 0 \<and>
   exit_code (run_console no_bytes no_identity [Sigint, Settled 0 Resolved]) = Some 0 \<and>
   exit_code (run_console no_bytes no_identity
     [Sigint, Settled 0 (Rejected (Error (js ''stop failed'')))]) = Some 1"
  using quit_and_sigint_exit_0_when_stop_resolves
      [OF split_trim_quit, of "\<lambda>c. Resolved" no_bytes no_identity Resolved]
    quit_and_sigint_exit_0_when_stop_resolves
      [OF split_trim_quit, of "\<lambda>c. Resolved" no_bytes no_identity
         "Rejected (Error (js ''stop failed''))"]
    split_trim_quit
  by simp

text \<open>
  C1, as the specification states it, fails. A line \<open>quit\<close> followed by SIGINT before the
  stop of the \<open>quit\<close> has settled calls \<open>node.stop()\<close> twice; the process then exits with
  code 0 when the first stop resolves.
\<close>

theorem racing_sigint_stops_twice:
  "stop_calls (events (run_console no_bytes no_identity
      [Line (js ''quit''), Sigint, Settled 0 Resolved])) = 2
   \<and> exit_code (run_console no_bytes no_identity
      [Line (js ''quit''), Sigint, Settled 0 Resolved]) = Some 0"
  by (simp add: run_console_def step_def initial_def launch_def on_line_def processCommand_def
      js_def trim_def is_js_space_def on_sigint_def console_log_def await_def stop_calls_def)

text \<open>
  C1, amended. The program keeps no record of a stop in progress. In every state the
  console reaches, a stimulus adds exactly one call of \<open>node.stop()\<close> when the process is
  still running and the stimulus is a shutdown trigger (a line whose verb is \<open>quit\<close>, or
  SIGINT), and adds none otherwise. So when exactly one shutdown trigger is delivered,
  a single \<open>quit\<close> for instance, stop is called exactly once, and every further trigger
  that arrives before the process has exited calls it once more.
\<close>

theorem stop_called_once_per_trigger:
  "stop_calls (events (step enc ident (run_console enc ident xs) x)) =
     stop_calls (events (run_console enc ident xs)) +
       (if exit_code (run_console enc ident xs) = None \<and> shutdown_trigger x then 1 else 0)
   \<and> (length (filter shutdown_trigger xs) = 1 \<longrightarrow>
        stop_calls (events (run_console enc ident xs)) = 1)"
proof
  show "stop_calls (events (step enc ident (run_console enc ident xs) x)) =
     stop_calls (events (run_console enc ident xs)) +
       (if exit_code (run_console enc ident xs) = None \<and> shutdown_trigger x then 1 else 0)"
    by (rule step_stop_calls [OF settled_quietly_run])
next
  show "length (filter shutdown_trigger xs) = 1 \<longrightarrow>
        stop_calls (events (run_console enc ident xs)) = 1"
    by (simp add: one_trigger_one_stop)
qed

lemma quit_line_examples: "quit_line (js ''quit'')" "\<not> quit_line (js ''sub a'')"
  by (simp_all add: quit_line_def js_def trim_def is_js_space_def)

theorem stop_called_once_per_trigger_witness:
  "length (filter shutdown_trigger
     [Line (js ''sub a''), Line (js ''quit''), Settled 0 Resolved, Settled 0 Resolved]) = 1
   \<and> stop_calls (events (run_console no_bytes no_identity
     [Line (js ''sub a''), Line (js ''quit''), Settled 0 Resolved, Settled 0 Resolved])) = 1"
  using stop_called_once_per_trigger
    [of no_bytes no_identity
        "[Line (js ''sub a''), Line (js ''quit''), Settled 0 Resolved, Settled 0 Resolved]"
        Sigint]
  by (simp add: quit_line_examples)

subsection \<open>Order of the commands\<close>

text \<open>
  C3, as the specification states it, fails. Two lines that arrive one after the other
  are both dispatched before the first dispatch has settled: the events are the two
  subscribe calls with no prompt between them, and two listeners are suspended.
\<close>

theorem second_line_dispatched_before_first_settles:
  "events (run_console no_bytes no_identity [Line (js ''sub a''), Line (js ''sub b'')]) =
     [Call (PubsubSubscribe (js ''a'')), Call (PubsubSubscribe (js ''b''))]
   \<and> length (pending (run_console no_bytes no_identity
        [Line (js ''sub a''), Line (js ''sub b'')])) = 2"
  by (simp add: run_console_def step_def initial_def launch_def on_line_def processCommand_def
      js_def trim_def is_js_space_def pubsub_subscribe_def missing_def console_log_def
      await_def)

text \<open>
  C3, amended. Within the listener of one line the order holds: however the node
  answers, either the listener returns and \<open>rl.prompt()\<close> is its last event and occurs
  nowhere earlier, so the prompt comes only after the dispatch of that line has settled
  or was refused, or the process exits (\<open>quit\<close>) and no prompt is written at all. Lines
  are not held back while an earlier listener is suspended: in every state of a running
  process, whatever listeners are pending, a line starts its listener at once.
\<close>

theorem prompt_only_after_own_dispatch:
  "((snd (run_with node (on_line enc ident input)) = Finished () \<and>
     (\<exists>before. fst (run_with node (on_line enc ident input)) = before @ [Prompt] \<and>
               Prompt \<notin> set before))
    \<or> ((\<exists>n. snd (run_with node (on_line enc ident input)) = Exited n) \<and>
        Prompt \<notin> set (fst (run_with node (on_line enc ident input)))))
   \<and> events (step enc ident s (Line input)) =
       (if exit_code s = None
        then events s @ fst (run_to_await (on_line enc ident input))
        else events s)"
proof
  let ?P = "\<lambda>ev. (\<exists>s. ev = Log s) \<or> (\<exists>l e. ev = ErrorLog l e)"
  have w: "writes ?P (processCommand enc ident input)"
    by (rule writes_processCommand) auto
  have np: "Prompt \<notin> set (fst (run_with node (processCommand enc ident input)))"
    using writes_run_with [OF w, of node] by auto
  show "(snd (run_with node (on_line enc ident input)) = Finished () \<and>
     (\<exists>before. fst (run_with node (on_line enc ident input)) = before @ [Prompt] \<and>
               Prompt \<notin> set before))
    \<or> ((\<exists>n. snd (run_with node (on_line enc ident input)) = Exited n) \<and>
        Prompt \<notin> set (fst (run_with node (on_line enc ident input))))"
    using np
    by (cases "snd (run_with node (processCommand enc ident input))")
       (auto simp: on_line_def run_with_bind run_with_try_catch console_error_def)
next
  show "events (step enc ident s (Line input)) =
       (if exit_code s = None
        then events s @ fst (run_to_await (on_line enc ident input))
        else events s)"
    by (simp add: step_def events_launch)
qed

subsection \<open>Ports\<close>

lemma ilog2_le: "n < 2 ^ Suc k \<Longrightarrow> ilog2 n \<le> k"
proof (induction k arbitrary: n)
  case 0
  then show ?case by (simp add: ilog2.simps)
next
  case (Suc k)
  have "n div 2 < 2 ^ Suc k" using Suc.prems by simp
  then have "ilog2 (n div 2) \<le> k" by (rule Suc.IH)
  then show ?case by (subst ilog2.simps) simp
qed

lemma exponent_le:
  assumes "x < 2 ^ 53"
  shows "exponent x \<le> 52"
proof (cases "1 \<le> x")
  case True
  have "\<lfloor>x\<rfloor> < 2 ^ 53" using assms by (simp add: floor_less_iff)
  then have "nat \<lfloor>x\<rfloor> < 2 ^ Suc 52" using True by (simp add: nat_less_iff)
  then have "ilog2 (nat \<lfloor>x\<rfloor>) \<le> 52" by (rule ilog2_le)
  then show ?thesis using True by (simp add: exponent_def)
next
  case False
  then show ?thesis by (simp add: exponent_def)
qed

lemma round_half_even_ge: "of_int m \<le> q \<Longrightarrow> m \<le> round_half_even q"
proof -
  assume "of_int m \<le> q"
  then have "m \<le> \<lfloor>q\<rfloor>" by (simp add: le_floor_iff)
  then show ?thesis by (auto simp: round_half_even_def Let_def)
qed

lemma round_half_even_le: "q \<le> of_int m \<Longrightarrow> round_half_even q \<le> m"
proof -
  assume h: "q \<le> of_int m"
  show ?thesis
  proof (cases "q = of_int m")
    case True
    then show ?thesis by (simp add: round_half_even_def)
  next
    case False
    with h have "q < of_int m" by simp
    then have "\<lfloor>q\<rfloor> < m" by (simp add: floor_less_iff)
    then show ?thesis by (auto simp: round_half_even_def Let_def)
  qed
qed

lemma fl64_between:
  assumes "of_int a \<le> x" and "x \<le> of_int b" and "\<bar>x\<bar> < 2 ^ 53"
  shows "of_int a \<le> fl64 x \<and> fl64 x \<le> of_int b"
proof -
  define e where "e = max (exponent \<bar>x\<bar>) (- 1022) - 52"
  have "e \<le> 0" using exponent_le [OF assms(3)] by (simp add: e_def)
  define k where "k = nat (- e)"
  have pw: "(2::rat) powi e = 1 / 2 ^ k"
    using \<open>e \<le> 0\<close> by (simp add: k_def power_int_def field_simps)
  have fl: "fl64 x = of_int (round_half_even (x * 2 ^ k)) / 2 ^ k"
    by (simp add: fl64_def Let_def e_def [symmetric] pw)
  have "of_int (a * 2 ^ k) \<le> x * 2 ^ k" using assms(1) by simp
  then have lo: "a * 2 ^ k \<le> round_half_even (x * 2 ^ k)" by (rule round_half_even_ge)
  have "x * 2 ^ k \<le> of_int (b * 2 ^ k)" using assms(2) by simp
  then have hi: "round_half_even (x * 2 ^ k) \<le> b * 2 ^ k" by (rule round_half_even_le)
  have "(of_int (a * 2 ^ k) :: rat) \<le> of_int (round_half_even (x * 2 ^ k))"
    using lo by (simp only: of_int_le_iff)
  then have 1: "of_int a \<le> fl64 x" by (simp add: fl field_simps)
  have "(of_int (round_half_even (x * 2 ^ k)) :: rat) \<le> of_int (b * 2 ^ k)"
    using hi by (simp only: of_int_le_iff)
  then have 2: "fl64 x \<le> of_int b" by (simp add: fl field_simps)
  from 1 2 show ?thesis ..
qed

lemma fl64_of_int: "\<bar>n\<bar> < 2 ^ 53 \<Longrightarrow> fl64 (of_int n) = of_int n"
proof -
  assume "\<bar>n\<bar> < 2 ^ 53"
  then have "\<bar>of_int n :: rat\<bar> < 2 ^ 53"
    by (metis of_int_abs of_int_less_numeral_power_cancel_iff)
  from fl64_between [OF order_refl order_refl this] show ?thesis by simp
qed

lemma ilog2_eq: "2 ^ n \<le> m \<Longrightarrow> m < 2 ^ Suc n \<Longrightarrow> ilog2 m = n"
proof (induction n arbitrary: m)
  case 0
  then show ?case by (simp add: ilog2.simps)
next
  case (Suc n)
  have "2 ^ n \<le> m div 2" "m div 2 < 2 ^ Suc n" using Suc.prems by auto
  then have "ilog2 (m div 2) = n" by (rule Suc.IH)
  moreover have "(2::nat) \<le> 2 ^ Suc n" by simp
  then have "\<not> m < 2" using Suc.prems(1) by linarith
  ultimately show ?case by (subst ilog2.simps) simp
qed

lemma exponent_eq:
  assumes "2 ^ n \<le> x" and "x < 2 ^ Suc n"
  shows "exponent x = int n"
proof -
  have "(1::rat) \<le> 2 ^ n" by simp
  then have one: "1 \<le> x" using assms(1) by linarith
  have "(2::int) ^ n \<le> \<lfloor>x\<rfloor>" using assms(1) by (simp add: le_floor_iff)
  then have lo: "2 ^ n \<le> nat \<lfloor>x\<rfloor>" by (simp add: le_nat_iff)
  have "\<lfloor>x\<rfloor> < 2 ^ Suc n" using assms(2) by (simp add: floor_less_iff)
  then have hi: "nat \<lfloor>x\<rfloor> < 2 ^ Suc n" using one by (simp add: nat_less_iff)
  show ?thesis using one ilog2_eq [OF lo hi] by (simp add: exponent_def)
qed

lemma exponent_half:
  assumes "1 / 2 \<le> x" and "x < 1"
  shows "exponent x = - 1"
proof -
  have pos: "0 < x" using assms(1) by simp
  have "1 / x \<le> 2" using assms(1) pos by (simp add: field_simps)
  moreover have "1 < 1 / x" using assms(2) pos by simp
  ultimately have "\<lceil>1 / x\<rceil> = 2" by (simp add: ceiling_unique)
  then show ?thesis using assms(2) by (simp add: exponent_def clog2_def ilog2.simps)
qed

lemma round_half_even_nearest:
  assumes "of_int m - 1 / 2 < q" and "q < of_int m + 1 / 2"
  shows "round_half_even q = m"
proof (cases "of_int m \<le> q")
  case True
  then have "\<lfloor>q\<rfloor> = m" using assms(2) by (simp add: floor_unique)
  then show ?thesis using assms True by (simp add: round_half_even_def Let_def)
next
  case False
  then have "\<lfloor>q\<rfloor> = m - 1" using assms(1) by (simp add: floor_unique)
  then show ?thesis using assms False by (simp add: round_half_even_def Let_def)
qed

lemma fl64_nearest:
  assumes "exponent \<bar>x\<bar> = 52 - int k" and "k \<le> 1074"
    and "of_int m - 1 / 2 < x * 2 ^ k" and "x * 2 ^ k < of_int m + 1 / 2"
  shows "fl64 x = of_int m / 2 ^ k"
proof -
  have pw: "(2::rat) powi (- int k) = 1 / 2 ^ k"
    by (simp add: power_int_def field_simps)
  have "round_half_even (x * 2 ^ k) = m" using assms(3,4) by (rule round_half_even_nearest)
  then show ?thesis using assms(2) by (simp add: fl64_def Let_def assms(1) pw)
qed

lemma top_product: "fl64 ((1 - 1 / 2 ^ 52) * 997) = 997 - 1 / 2 ^ 42"
proof -
  have "exponent \<bar>(1 - 1 / 2 ^ 52) * 997 :: rat\<bar> = int 9"
    by (rule exponent_eq) simp_all
  then show ?thesis
    using fl64_nearest [of "(1 - 1 / 2 ^ 52) * 997" 43 "997 * 2 ^ 43 - 2"] by simp
qed

lemma top_sum: "fl64 (997 - 1 / 2 ^ 42 + of_int 4002) = 4999"
proof -
  have "exponent \<bar>997 - 1 / 2 ^ 42 + of_int 4002 :: rat\<bar> = int 12"
    by (rule exponent_eq) simp_all
  then show ?thesis
    using fl64_nearest [of "997 - 1 / 2 ^ 42 + of_int 4002" 40 "4999 * 2 ^ 40"] by simp
qed

lemma top_random: "fl64 (1 - 1 / 2 ^ 52) = 1 - 1 / 2 ^ 52"
proof -
  have "exponent \<bar>1 - 1 / 2 ^ 52 :: rat\<bar> = - 1"
    by (rule exponent_half) simp_all
  then show ?thesis
    using fl64_nearest [of "1 - 1 / 2 ^ 52" 53 "2 ^ 53 - 2"] by simp
qed

lemma range_997: "fl64 (of_int 4999 - of_int 4002) = 997"
  using fl64_of_int [of 997] by simp

lemma getRandomPort_between:
  assumes "0 \<le> r" and "r < 1" and "0 \<le> mn" and "mn \<le> mx" and "mx < 2 ^ 52"
  shows "mn \<le> getRandomPort mn mx r \<and> getRandomPort mn mx r \<le> mx"
proof -
  have small: "\<bar>mx - mn\<bar> < 2 ^ 53" using assms by simp
  have d: "fl64 (of_int mx - of_int mn) = of_int (mx - mn)"
    using fl64_of_int [OF small] by simp
  define p where "p = fl64 (r * of_int (mx - mn))"
  have p0: "of_int 0 \<le> r * of_int (mx - mn)" using assms by simp
  have "r * of_int (mx - mn) \<le> 1 * of_int (mx - mn)"
    using assms by (intro mult_right_mono) simp_all
  then have p1: "r * of_int (mx - mn) \<le> of_int (mx - mn)" by simp
  have "(of_int (mx - mn) :: rat) < 2 ^ 53"
    using small by (simp only: of_int_less_numeral_power_cancel_iff)
  then have "\<bar>r * of_int (mx - mn)\<bar> < 2 ^ 53" using p0 p1 by simp
  from fl64_between [OF p0 p1 this] have p: "0 \<le> p" "p \<le> of_int (mx - mn)"
    by (simp_all add: p_def)
  have s0: "of_int mn \<le> p + of_int mn" using p by simp
  have s1: "p + of_int mn \<le> of_int mx" using p by simp
  have "mx < 2 ^ 53" using assms(5) by simp
  then have "(of_int mx :: rat) < 2 ^ 53"
    by (simp only: of_int_less_numeral_power_cancel_iff)
  then have "\<bar>p + of_int mn\<bar> < 2 ^ 53" using s0 s1 assms(3) by simp
  from fl64_between [OF s0 s1 this]
  have "of_int mn \<le> fl64 (p + of_int mn)" "fl64 (p + of_int mn) \<le> of_int mx" by simp_all
  then have "mn \<le> \<lfloor>fl64 (p + of_int mn)\<rfloor>" "\<lfloor>fl64 (p + of_int mn)\<rfloor> \<le> mx"
    by (simp_all add: le_floor_iff floor_le_iff)
  then show ?thesis by (simp add: getRandomPort_def d p_def)
qed

text \<open>
  C6, as the specification states it, fails. \<open>1 - 2 ^ -52\<close> is a binary64 value in
  \<open>[0, 1)\<close>. With it the product with 997 rounds to \<open>997 - 2 ^ -42\<close>, the sum with 4002
  rounds to 4999, and the swarm port is 4999, outside the half-open range
  \<open>[4002, 4999)\<close>.
\<close>

theorem swarm_port_reaches_max:
  "(0::rat) \<le> 1 - 1 / 2 ^ 52 \<and> (1 - 1 / 2 ^ 52 :: rat) < 1
   \<and> fl64 (1 - 1 / 2 ^ 52) = 1 - 1 / 2 ^ 52
   \<and> getRandomPort 4002 4999 (1 - 1 / 2 ^ 52) = 4999
   \<and> getRandomPort 4002 4999 (1 - 1 / 2 ^ 52) \<notin> {4002..<4999}"
proof -
  have "getRandomPort 4002 4999 (1 - 1 / 2 ^ 52) = 4999"
    by (simp only: getRandomPort_def range_997 top_product top_sum) simp
  then show ?thesis using top_random by simp
qed

text \<open>
  C6, amended. For values of \<open>Math.random()\<close> in \<open>[0, 1)\<close>, each port is an integer in the
  closed range of its category, \<open>[4002, 4999]\<close> for swarm, \<open>[5000, 5999]\<close> for websocket,
  \<open>[6000, 6999]\<close> for API and \<open>[7000, 7999]\<close> for gateway, computed as
  \<open>floor(random * (max - min) + min)\<close> in binary64 arithmetic; the four closed ranges are
  pairwise disjoint.
\<close>

theorem ports_in_closed_ranges:
  assumes "0 \<le> r1" "r1 < 1" and "0 \<le> r2" "r2 < 1" and "0 \<le> r3" "r3 < 1"
    and "0 \<le> r4" "r4 < 1"
  shows "swarmPort (generate_ports r1 r2 r3 r4) \<in> {4002..4999}
       \<and> wsPort (generate_ports r1 r2 r3 r4) \<in> {5000..5999}
       \<and> apiPort (generate_ports r1 r2 r3 r4) \<in> {6000..6999}
       \<and> gatewayPort (generate_ports r1 r2 r3 r4) \<in> {7000..7999}
       \<and> {4002..4999::int} \<inter> {5000..5999} = {} \<and> {4002..4999::int} \<inter> {6000..6999} = {}
       \<and> {4002..4999::int} \<inter> {7000..7999} = {} \<and> {5000..5999::int} \<inter> {6000..6999} = {}
       \<and> {5000..5999::int} \<inter> {7000..7999} = {} \<and> {6000..6999::int} \<inter> {7000..7999} = {}"
proof -
  have "4002 \<le> getRandomPort 4002 4999 r1 \<and> getRandomPort 4002 4999 r1 \<le> 4999"
    using assms by (intro getRandomPort_between) simp_all
  moreover have "5000 \<le> getRandomPort 5000 5999 r2 \<and> getRandomPort 5000 5999 r2 \<le> 5999"
    using assms by (intro getRandomPort_between) simp_all
  moreover have "6000 \<le> getRandomPort 6000 6999 r3 \<and> getRandomPort 6000 6999 r3 \<le> 6999"
    using assms by (intro getRandomPort_between) simp_all
  moreover have "7000 \<le> getRandomPort 7000 7999 r4 \<and> getRandomPort 7000 7999 r4 \<le> 7999"
    using assms by (intro getRandomPort_between) simp_all
  ultimately show ?thesis by (simp add: generate_ports_def)
qed

theorem ports_in_closed_ranges_witness:
  "(0::rat) \<le> 0 \<and> (0::rat) < 1 \<and> (0::rat) \<le> 1 / 2 \<and> (1 / 2 :: rat) < 1
   \<and> (0::rat) \<le> 1 / 3 \<and> (1 / 3 :: rat) < 1
   \<and> (0::rat) \<le> 1 - 1 / 2 ^ 52 \<and> (1 - 1 / 2 ^ 52 :: rat) < 1
   \<and> swarmPort (generate_ports 0 (1 / 2) (1 / 3) (1 - 1 / 2 ^ 52)) \<in> {4002..4999}
   \<and> wsPort (generate_ports 0 (1 / 2) (1 / 3) (1 - 1 / 2 ^ 52)) \<in> {5000..5999}
   \<and> apiPort (generate_ports 0 (1 / 2) (1 / 3) (1 - 1 / 2 ^ 52)) \<in> {6000..6999}
   \<and> gatewayPort (generate_ports 0 (1 / 2) (1 / 3) (1 - 1 / 2 ^ 52)) \<in> {7000..7999}"
  using ports_in_closed_ranges [of 0 "1 / 2" "1 / 3" "1 - 1 / 2 ^ 52"] by simp

lemma unit_of_nat: "x < 65536 \<Longrightarrow> unat (of_nat x :: code_unit) = x"
  by (simp add: unat_of_nat)

lemma digit_unit: "d < 10 \<Longrightarrow> unat (of_nat (48 + d) :: code_unit) = 48 + d"
  by (rule unit_of_nat) simp

lemma decimal_not_Nil: "decimal n \<noteq> []"
  by (subst decimal.simps) simp

lemma decimal_digits: "list_all is_digit (decimal n)"
proof (induction n rule: decimal.induct)
  case (1 n)
  show ?case
  proof (cases "n < 10")
    case True
    then show ?thesis using digit_unit [of n] by (subst decimal.simps) (simp add: is_digit_def)
  next
    case False
    have "n mod 10 < 10" by simp
    then have "is_digit (of_nat (48 + n mod 10))"
      using digit_unit [of "n mod 10"] by (simp add: is_digit_def)
    then show ?thesis using False 1 by (subst decimal.simps) simp
  qed
qed

lemma decimal_value_snoc:
  "decimal_value (ds @ [u]) = 10 * decimal_value ds + (unat u - 0x30)"
  by (simp add: decimal_value_def)

lemma decimal_value_decimal: "decimal_value (decimal n) = n"
proof (induction n rule: decimal.induct)
  case (1 n)
  show ?case
  proof (cases "n < 10")
    case True
    then show ?thesis
      using digit_unit [of n] by (subst decimal.simps) (simp add: decimal_value_def)
  next
    case False
    have "n mod 10 < 10" by simp
    then have u: "unat (of_nat (48 + n mod 10) :: code_unit) = 48 + n mod 10"
      by (rule digit_unit)
    have "decimal_value (decimal n) = 10 * decimal_value (decimal (n div 10)) + n mod 10"
      using False u by (subst decimal.simps) (simp add: decimal_value_snoc)
    then show ?thesis using 1 False by simp
  qed
qed

lemma decimal_hd: "0 < n \<Longrightarrow> hd (decimal n) \<noteq> 0x30"
proof (induction n rule: decimal.induct)
  case (1 n)
  show ?case
  proof (cases "n < 10")
    case True
    have "unat (hd (decimal n)) = 48 + n"
      using True digit_unit [of n] by (subst decimal.simps) simp
    then show ?thesis using "1.prems" by auto
  next
    case False
    then have "0 < n div 10" by simp
    with 1 False have "hd (decimal (n div 10)) \<noteq> 0x30" by simp
    then show ?thesis
      using False decimal_not_Nil [of "n div 10"] by (subst decimal.simps) simp
  qed
qed

lemma decimal_numeral_decimal: "decimal_numeral (decimal n)"
proof (cases "n = 0")
  case True
  then show ?thesis by (simp add: decimal_numeral_def decimal.simps is_digit_def)
next
  case False
  then show ?thesis
    using decimal_hd [of n] by (simp add: decimal_numeral_def decimal_not_Nil decimal_digits)
qed

lemma number_4321: "number_to_string 4321 = js ''4321''"
  by (simp add: number_to_string_def decimal.simps js_def)

text \<open>
  C7. The repository path given to \<open>create\<close> is \<open>./ipfs-repo-\<close> (the twelve code units
  \<open>2E 2F 69 70 66 73 2D 72 65 70 6F 2D\<close>) followed by the swarm port written as a
  number: for a port that is not negative a decimal numeral, digits only and no leading
  zero, whose value is the port, and for a negative one a minus sign and the numeral of
  its magnitude. The path is a function of the swarm port alone: two
  sets of ports with the same swarm port give the same path, whatever the other three
  ports are.
\<close>

theorem repo_path_from_swarm_port:
  assumes "swarmPort p = swarmPort q"
  shows "repo (main_options p) = repo (main_options q)
       \<and> repo (main_options p) = js ''./ipfs-repo-'' @ number_to_string (swarmPort p)
       \<and> js ''./ipfs-repo-'' =
           [0x2E, 0x2F, 0x69, 0x70, 0x66, 0x73, 0x2D, 0x72, 0x65, 0x70, 0x6F, 0x2D]
       \<and> (0 \<le> swarmPort p \<longrightarrow>
            decimal_numeral (number_to_string (swarmPort p)) \<and>
            int (decimal_value (number_to_string (swarmPort p))) = swarmPort p)
       \<and> (swarmPort p < 0 \<longrightarrow>
            number_to_string (swarmPort p) = js ''-'' @ number_to_string (- swarmPort p))"
proof (intro conjI impI)
  show "repo (main_options p) = repo (main_options q)"
    using assms by (simp add: main_options_def)
next
  show "repo (main_options p) = js ''./ipfs-repo-'' @ number_to_string (swarmPort p)"
    by (simp add: main_options_def)
next
  show "js ''./ipfs-repo-'' =
           [0x2E, 0x2F, 0x69, 0x70, 0x66, 0x73, 0x2D, 0x72, 0x65, 0x70, 0x6F, 0x2D]"
    by (simp add: js_def)
next
  assume "0 \<le> swarmPort p"
  then show "decimal_numeral (number_to_string (swarmPort p))"
    by (simp add: number_to_string_def decimal_numeral_decimal)
next
  assume "0 \<le> swarmPort p"
  then show "int (decimal_value (number_to_string (swarmPort p))) = swarmPort p"
    by (simp add: number_to_string_def decimal_value_decimal)
next
  assume "swarmPort p < 0"
  then show "number_to_string (swarmPort p) = js ''-'' @ number_to_string (- swarmPort p)"
    by (simp add: number_to_string_def)
qed

theorem repo_path_from_swarm_port_witness:
  "swarmPort \<lparr>swarmPort = 4321, wsPort = 5000, apiPort = 6000, gatewayPort = 7000\<rparr> =
     swarmPort \<lparr>swarmPort = 4321, wsPort = 5998, apiPort = 6998, gatewayPort = 7998\<rparr>
   \<and> (0::int) \<le> 4321
   \<and> repo (main_options \<lparr>swarmPort = 4321, wsPort = 5000, apiPort = 6000, gatewayPort = 7000\<rparr>) =
     repo (main_options \<lparr>swarmPort = 4321, wsPort = 5998, apiPort = 6998, gatewayPort = 7998\<rparr>)
   \<and> repo (main_options \<lparr>swarmPort = 4321, wsPort = 5000, apiPort = 6000, gatewayPort = 7000\<rparr>) =
     js ''./ipfs-repo-4321''
   \<and> decimal_numeral (js ''4321'') \<and> decimal_value (js ''4321'') = 4321"
proof -
  have path: "js ''./ipfs-repo-'' @ js ''4321'' = js ''./ipfs-repo-4321''"
    by (simp add: js_def)
  have h: "swarmPort \<lparr>swarmPort = 4321, wsPort = 5000, apiPort = 6000, gatewayPort = 7000\<rparr> =
     swarmPort \<lparr>swarmPort = 4321, wsPort = 5998, apiPort = 6998, gatewayPort = 7998\<rparr>"
    by simp
  note t = repo_path_from_swarm_port [OF h]
  have same:
    "repo (main_options \<lparr>swarmPort = 4321, wsPort = 5000, apiPort = 6000, gatewayPort = 7000\<rparr>) =
     repo (main_options \<lparr>swarmPort = 4321, wsPort = 5998, apiPort = 6998, gatewayPort = 7998\<rparr>)"
    by (rule t [THEN conjunct1])
  have form:
    "repo (main_options \<lparr>swarmPort = 4321, wsPort = 5000, apiPort = 6000, gatewayPort = 7000\<rparr>) =
     js ''./ipfs-repo-4321''"
    using t [THEN conjunct2, THEN conjunct1] by (simp add: number_4321 path)
  have numeral: "decimal_numeral (js ''4321'') \<and> decimal_value (js ''4321'') = 4321"
    using t [THEN conjunct2, THEN conjunct2, THEN conjunct2, THEN conjunct1]
    by (simp add: number_4321)
  from h same form numeral show ?thesis by simp
qed

subsection \<open>Text to bytes and back\<close>

lemma byte_value: "x < 256 \<Longrightarrow> unat (of_nat x :: byte) = x"
  by (simp add: unat_of_nat)

lemma lead_mod: "a < m \<Longrightarrow> (k * m + a) mod m = (a::nat)"
  by simp

lemma decode_ascii:
  "unat b = c \<Longrightarrow> c < 0x80 \<Longrightarrow>
   utf8_decode 0 0 0x80 0xBF (b # bs) = c # utf8_decode 0 0 0x80 0xBF bs"
  by (simp add: utf8_decode.simps(2))

lemma decode_lead2:
  assumes "unat b = 0xC0 + a" and "2 \<le> a" and "a < 0x20"
  shows "utf8_decode 0 0 0x80 0xBF (b # bs) = utf8_decode a 1 0x80 0xBF bs"
proof -
  have "(0xC0 + a) mod 0x20 = a" using lead_mod [of a "0x20" 6] assms by simp
  then show ?thesis using assms by (simp add: utf8_decode.simps(2))
qed

lemma decode_lead3:
  assumes "unat b = 0xE0 + a" and "a < 0x10"
  shows "utf8_decode 0 0 0x80 0xBF (b # bs) =
           utf8_decode a 2 (if a = 0 then 0xA0 else 0x80) (if a = 0xD then 0x9F else 0xBF) bs"
proof -
  have "(0xE0 + a) mod 0x10 = a" using lead_mod [of a "0x10" 14] assms by simp
  then show ?thesis using assms by (simp add: utf8_decode.simps(2))
qed

lemma decode_lead4:
  assumes "unat b = 0xF0 + a" and "a < 5"
  shows "utf8_decode 0 0 0x80 0xBF (b # bs) =
           utf8_decode a 3 (if a = 0 then 0x90 else 0x80) (if a = 4 then 0x8F else 0xBF) bs"
proof -
  have "(0xF0 + a) mod 8 = a" using lead_mod [of a 8 30] assms by simp
  then show ?thesis using assms by (simp add: utf8_decode.simps(2))
qed

lemma decode_continuation:
  assumes "unat b = 0x80 + x" and "x < 0x40" and "lo \<le> 0x80 + x" and "0x80 + x \<le> hi"
    and "1 < needed"
  shows "utf8_decode cp needed lo hi (b # bs) =
           utf8_decode (cp * 0x40 + x) (needed - 1) 0x80 0xBF bs"
proof -
  have "(0x80 + x) mod 0x40 = x" using lead_mod [of x "0x40" 2] assms by simp
  then show ?thesis using assms by (simp add: utf8_decode.simps(2))
qed

lemma decode_last:
  assumes "unat b = 0x80 + x" and "x < 0x40" and "lo \<le> 0x80 + x" and "0x80 + x \<le> hi"
  shows "utf8_decode cp 1 lo hi (b # bs) = (cp * 0x40 + x) # utf8_decode 0 0 0x80 0xBF bs"
proof -
  have "(0x80 + x) mod 0x40 = x" using lead_mod [of x "0x40" 2] assms by simp
  then show ?thesis using assms by (simp add: utf8_decode.simps(2))
qed

lemma decode_one:
  assumes "c < 0x80"
  shows "utf8_decode 0 0 0x80 0xBF (utf8_bytes c @ bs) = c # utf8_decode 0 0 0x80 0xBF bs"
proof -
  have "unat (of_nat c :: byte) = c" using assms by (intro byte_value) simp
  then show ?thesis using assms by (simp add: utf8_bytes_def decode_ascii)
qed

lemma decode_two:
  assumes "0x80 \<le> c" and "c < 0x800"
  shows "utf8_decode 0 0 0x80 0xBF (utf8_bytes c @ bs) = c # utf8_decode 0 0 0x80 0xBF bs"
proof -
  define a where "a = c div 0x40"
  define x where "x = c mod 0x40"
  have c: "a * 0x40 + x = c" by (simp add: a_def x_def)
  have r: "2 \<le> a" "a < 0x20" "x < 0x40" using assms by (auto simp: a_def x_def)
  define b1 :: byte where "b1 = of_nat (0xC0 + a)"
  define b2 :: byte where "b2 = of_nat (0x80 + x)"
  have u1: "unat b1 = 0xC0 + a" unfolding b1_def using r by (intro byte_value) simp
  have u2: "unat b2 = 0x80 + x" unfolding b2_def using r by (intro byte_value) simp
  have "utf8_bytes c = [b1, b2]"
    using assms by (simp add: utf8_bytes_def a_def x_def b1_def b2_def)
  then have "utf8_decode 0 0 0x80 0xBF (utf8_bytes c @ bs) =
               utf8_decode 0 0 0x80 0xBF (b1 # b2 # bs)" by simp
  also have "\<dots> = utf8_decode a 1 0x80 0xBF (b2 # bs)"
    using u1 r by (simp add: decode_lead2)
  also have "\<dots> = (a * 0x40 + x) # utf8_decode 0 0 0x80 0xBF bs"
    using u2 r by (intro decode_last) simp_all
  finally show ?thesis by (simp only: c)
qed

lemma decode_three:
  assumes "0x800 \<le> c" and "c < 0x10000" and "\<not> (0xD800 \<le> c \<and> c \<le> 0xDFFF)"
  shows "utf8_decode 0 0 0x80 0xBF (utf8_bytes c @ bs) = c # utf8_decode 0 0 0x80 0xBF bs"
proof -
  define a where "a = c div 0x1000"
  define x where "x = c div 0x40 mod 0x40"
  define y where "y = c mod 0x40"
  have "c div 0x1000 = c div 0x40 div 0x40" by (simp add: div_mult2_eq [symmetric])
  then have ax: "a * 0x40 + x = c div 0x40" by (simp add: a_def x_def)
  then have c: "(a * 0x40 + x) * 0x40 + y = c" by (simp add: y_def)
  have r: "a < 0x10" "x < 0x40" "y < 0x40" using assms by (auto simp: a_def x_def y_def)
  have c': "a * 0x1000 + x * 0x40 + y = c" using c by simp
  have lo: "a = 0 \<Longrightarrow> 0x20 \<le> x" using assms(1) c' r by linarith
  have hi: "a = 0xD \<Longrightarrow> x < 0x20" using assms(3) c' r by linarith
  define b1 :: byte where "b1 = of_nat (0xE0 + a)"
  define b2 :: byte where "b2 = of_nat (0x80 + x)"
  define b3 :: byte where "b3 = of_nat (0x80 + y)"
  have u1: "unat b1 = 0xE0 + a" unfolding b1_def using r by (intro byte_value) simp
  have u2: "unat b2 = 0x80 + x" unfolding b2_def using r by (intro byte_value) simp
  have u3: "unat b3 = 0x80 + y" unfolding b3_def using r by (intro byte_value) simp
  have "utf8_bytes c = [b1, b2, b3]"
    using assms by (simp add: utf8_bytes_def a_def x_def y_def b1_def b2_def b3_def)
  then have "utf8_decode 0 0 0x80 0xBF (utf8_bytes c @ bs) =
               utf8_decode 0 0 0x80 0xBF (b1 # b2 # b3 # bs)" by simp
  also have "\<dots> = utf8_decode a 2 (if a = 0 then 0xA0 else 0x80)
                      (if a = 0xD then 0x9F else 0xBF) (b2 # b3 # bs)"
    using u1 r by (simp add: decode_lead3)
  also have "\<dots> = utf8_decode (a * 0x40 + x) (2 - 1) 0x80 0xBF (b3 # bs)"
    using u2 r lo hi by (intro decode_continuation) auto
  also have "\<dots> = ((a * 0x40 + x) * 0x40 + y) # utf8_decode 0 0 0x80 0xBF bs"
    using u3 r decode_last [of b3 y "0x80" "0xBF" "a * 0x40 + x" bs] by simp
  finally show ?thesis by (simp only: c)
qed

lemma decode_four:
  assumes "0x10000 \<le> c" and "c < 0x110000"
  shows "utf8_decode 0 0 0x80 0xBF (utf8_bytes c @ bs) = c # utf8_decode 0 0 0x80 0xBF bs"
proof -
  define a where "a = c div 0x40000"
  define x where "x = c div 0x1000 mod 0x40"
  define y where "y = c div 0x40 mod 0x40"
  define z where "z = c mod 0x40"
  have "c div 0x40000 = c div 0x1000 div 0x40" by (simp add: div_mult2_eq [symmetric])
  then have ax: "a * 0x40 + x = c div 0x1000" by (simp add: a_def x_def)
  have "c div 0x1000 = c div 0x40 div 0x40" by (simp add: div_mult2_eq [symmetric])
  then have axy: "(a * 0x40 + x) * 0x40 + y = c div 0x40" by (simp add: ax y_def)
  then have c: "((a * 0x40 + x) * 0x40 + y) * 0x40 + z = c" by (simp add: z_def)
  have r: "a < 5" "x < 0x40" "y < 0x40" "z < 0x40"
    using assms by (auto simp: a_def x_def y_def z_def)
  have c': "a * 0x40000 + x * 0x1000 + y * 0x40 + z = c" using c by simp
  have lo: "a = 0 \<Longrightarrow> 0x10 \<le> x" using assms(1) c' r by linarith
  have hi: "a = 4 \<Longrightarrow> x < 0x10" using assms(2) c' r by linarith
  define b1 :: byte where "b1 = of_nat (0xF0 + a)"
  define b2 :: byte where "b2 = of_nat (0x80 + x)"
  define b3 :: byte where "b3 = of_nat (0x80 + y)"
  define b4 :: byte where "b4 = of_nat (0x80 + z)"
  have u1: "unat b1 = 0xF0 + a" unfolding b1_def using r by (intro byte_value) simp
  have u2: "unat b2 = 0x80 + x" unfolding b2_def using r by (intro byte_value) simp
  have u3: "unat b3 = 0x80 + y" unfolding b3_def using r by (intro byte_value) simp
  have u4: "unat b4 = 0x80 + z" unfolding b4_def using r by (intro byte_value) simp
  have "utf8_bytes c = [b1, b2, b3, b4]"
    using assms
    by (simp add: utf8_bytes_def a_def x_def y_def z_def b1_def b2_def b3_def b4_def)
  then have "utf8_decode 0 0 0x80 0xBF (utf8_bytes c @ bs) =
               utf8_decode 0 0 0x80 0xBF (b1 # b2 # b3 # b4 # bs)" by simp
  also have "\<dots> = utf8_decode a 3 (if a = 0 then 0x90 else 0x80)
                      (if a = 4 then 0x8F else 0xBF) (b2 # b3 # b4 # bs)"
    using u1 r by (simp add: decode_lead4)
  also have "\<dots> = utf8_decode (a * 0x40 + x) (3 - 1) 0x80 0xBF (b3 # b4 # bs)"
    using u2 r lo hi by (intro decode_continuation) auto
  also have "\<dots> = utf8_decode ((a * 0x40 + x) * 0x40 + y) (2 - 1) 0x80 0xBF (b4 # bs)"
    using u3 r by (simp add: decode_continuation)
  also have "\<dots> = (((a * 0x40 + x) * 0x40 + y) * 0x40 + z) # utf8_decode 0 0 0x80 0xBF bs"
    using u4 r decode_last [of b4 z "0x80" "0xBF" "(a * 0x40 + x) * 0x40 + y" bs] by simp
  finally show ?thesis by (simp only: c)
qed

lemma decode_scalar:
  assumes "scalar c"
  shows "utf8_decode 0 0 0x80 0xBF (utf8_bytes c @ bs) = c # utf8_decode 0 0 0x80 0xBF bs"
proof -
  consider "c < 0x80" | "0x80 \<le> c \<and> c < 0x800" | "0x800 \<le> c \<and> c < 0x10000"
    | "0x10000 \<le> c" by linarith
  then show ?thesis
  proof cases
    case 1 then show ?thesis by (rule decode_one)
  next
    case 2 then show ?thesis by (simp add: decode_two)
  next
    case 3 then show ?thesis using assms by (simp add: decode_three scalar_def)
  next
    case 4 then show ?thesis using assms by (simp add: decode_four scalar_def)
  qed
qed

lemma decode_scalars:
  "\<forall>c \<in> set cs. scalar c \<Longrightarrow> utf8_decode 0 0 0x80 0xBF (concat (map utf8_bytes cs)) = cs"
  by (induction cs) (simp_all add: decode_scalar)

lemma unit_value: "(of_nat (unat u) :: code_unit) = u"
  by simp

lemma unit_bound: "unat (u :: code_unit) < 0x10000"
  using unsigned_less [of u, where ?'a = nat] by simp

lemma pair_scalar:
  assumes "is_high u" and "is_low v"
  shows "scalar (0x10000 + (unat u - 0xD800) * 0x400 + (unat v - 0xDC00))"
  using assms by (auto simp: is_high_def is_low_def scalar_def)

lemma pair_units:
  assumes "is_high u" and "is_low v"
  shows "utf16_units (0x10000 + (unat u - 0xD800) * 0x400 + (unat v - 0xDC00)) = [u, v]"
proof -
  define h where "h = unat u - 0xD800"
  define l where "l = unat v - 0xDC00"
  have l: "l < 0x400" using assms(2) by (auto simp: is_low_def l_def)
  have hu: "0xD800 + h = unat u" using assms(1) by (simp add: is_high_def h_def)
  have lv: "0xDC00 + l = unat v" using assms(2) by (simp add: is_low_def l_def)
  have d: "(h * 0x400 + l) div 0x400 = h" using l by simp
  have m: "(h * 0x400 + l) mod 0x400 = l" using l by simp
  have "utf16_units (0x10000 + h * 0x400 + l) = [of_nat (0xD800 + h), of_nat (0xDC00 + l)]"
    unfolding utf16_units_def using d m by (simp add: add.assoc)
  then show ?thesis by (simp only: hu lv unit_value h_def [symmetric] l_def [symmetric])
qed

lemma single_scalar:
  assumes "\<not> is_high u" and "\<not> is_low u"
  shows "scalar (unat u)"
  using assms unit_bound [of u] by (auto simp: is_high_def is_low_def scalar_def)

lemma single_units: "utf16_units (unat u) = [u]"
  using unit_bound [of u] by (simp add: utf16_units_def)

lemma code_points_scalar: "utf8_safe s \<Longrightarrow> \<forall>c \<in> set (code_points s). scalar c"
proof (induction s rule: code_points.induct)
  case 1
  then show ?case by simp
next
  case (2 u)
  then show ?case by (simp add: single_scalar)
next
  case (3 u v us)
  then show ?case by (auto simp: pair_scalar single_scalar split: if_splits)
qed

lemma units_code_points: "utf8_safe s \<Longrightarrow> concat (map utf16_units (code_points s)) = s"
proof (induction s rule: code_points.induct)
  case 1
  then show ?case by simp
next
  case (2 u)
  then show ?case by (simp add: single_units)
next
  case (3 u v us)
  then show ?case by (auto simp: pair_units single_units split: if_splits)
qed

lemma safe_example: "utf8_safe [0x68, 0xE9, 0x20AC, 0xD83D, 0xDE00]"
  by (simp add: is_high_def is_low_def)

lemma encode_example:
  "uint8ArrayFromString [0x68, 0xE9, 0x20AC, 0xD83D, 0xDE00] =
     [0x68, 0xC3, 0xA9, 0xE2, 0x82, 0xAC, 0xF0, 0x9F, 0x98, 0x80]"
  by (simp add: uint8ArrayFromString_def utf8_bytes_def is_high_def is_low_def)

text \<open>
  C5. For every UTF-8-safe string, decoding the bytes of its encoding gives the string
  back. Publish, with this encoding, hands the node exactly the bytes of the encoding
  of the message M; and when bytes that publish has sent come back to the subscription
  callback, with this decoding, the callback calls \<open>console.log\<close> with its template and,
  as the payload, exactly M.
\<close>

theorem text_bytes_text_identity:
  assumes "utf8_safe s"
  shows "uint8ArrayToString (uint8ArrayFromString s) = s
       \<and> run_with node (pubsub_publish (\<lambda>text. Inr (uint8ArrayFromString text)) topic s) =
           (case node (PubsubPublish topic (uint8ArrayFromString s)) of
              Rejected e \<Rightarrow>
                ([Call (PubsubPublish topic (uint8ArrayFromString s)),
                  ErrorLog (js ''Failed to publish:'') e], Finished ())
            | _ \<Rightarrow>
                ([Call (PubsubPublish topic (uint8ArrayFromString s)),
                  Log (js ''Published message to '' @ topic)], Finished ()))
       \<and> (\<forall>bytes.
            Call (PubsubPublish topic bytes) \<in>
              set (fst (run_with node
                          (pubsub_publish (\<lambda>text. Inr (uint8ArrayFromString text)) topic s))) \<longrightarrow>
            run_with node'
              (message_callback (\<lambda>data. Inr (uint8ArrayToString data)) topic
                 \<lparr>msg_from = peer, msg_data = bytes\<rparr>) =
              ([LogFormat
                  (js ''\<newline>Received message on '' @ topic @ js '' from '' @ peer @ js '':'')
                  s], Finished ()))"
proof -
  have "utf8_decode 0 0 0x80 0xBF (uint8ArrayFromString s) = code_points s"
    unfolding uint8ArrayFromString_def
    using code_points_scalar [OF assms] by (rule decode_scalars)
  then have id: "uint8ArrayToString (uint8ArrayFromString s) = s"
    by (simp add: uint8ArrayToString_def units_code_points [OF assms])
  have pub: "run_with node (pubsub_publish (\<lambda>text. Inr (uint8ArrayFromString text)) topic s) =
           (case node (PubsubPublish topic (uint8ArrayFromString s)) of
              Rejected e \<Rightarrow>
                ([Call (PubsubPublish topic (uint8ArrayFromString s)),
                  ErrorLog (js ''Failed to publish:'') e], Finished ())
            | _ \<Rightarrow>
                ([Call (PubsubPublish topic (uint8ArrayFromString s)),
                  Log (js ''Published message to '' @ topic)], Finished ()))"
    by (cases "node (PubsubPublish topic (uint8ArrayFromString s))")
       (simp_all add: pubsub_publish_def of_result_def await_def console_log_def
          console_error_def)
  have sent: "bytes = uint8ArrayFromString s"
    if "Call (PubsubPublish topic bytes) \<in>
          set (fst (run_with node
                      (pubsub_publish (\<lambda>text. Inr (uint8ArrayFromString text)) topic s)))"
    for bytes
    using that unfolding pub
    by (cases "node (PubsubPublish topic (uint8ArrayFromString s))") auto
  have echoed: "run_with node'
              (message_callback (\<lambda>data. Inr (uint8ArrayToString data)) topic
                 \<lparr>msg_from = peer, msg_data = uint8ArrayFromString s\<rparr>) =
              ([LogFormat
                  (js ''\<newline>Received message on '' @ topic @ js '' from '' @ peer @ js '':'')
                  s], Finished ())"
    by (simp add: message_callback_def of_result_def id)
  show ?thesis using id pub sent echoed by blast
qed

theorem text_bytes_text_identity_witness:
  "utf8_safe [0x68, 0xE9, 0x20AC, 0xD83D, 0xDE00] \<and>
   uint8ArrayToString [0x68, 0xC3, 0xA9, 0xE2, 0x82, 0xAC, 0xF0, 0x9F, 0x98, 0x80] =
     [0x68, 0xE9, 0x20AC, 0xD83D, 0xDE00] \<and>
   run_with (\<lambda>c. Resolved)
     (pubsub_publish (\<lambda>text. Inr (uint8ArrayFromString text)) (js ''news'')
        [0x68, 0xE9, 0x20AC, 0xD83D, 0xDE00]) =
     ([Call (PubsubPublish (js ''news'')
               [0x68, 0xC3, 0xA9, 0xE2, 0x82, 0xAC, 0xF0, 0x9F, 0x98, 0x80]),
       Log (js ''Published message to news'')], Finished ()) \<and>
   run_with (\<lambda>c. Resolved)
     (message_callback (\<lambda>data. Inr (uint8ArrayToString data)) (js ''news'')
        \<lparr>msg_from = js ''peer'',
         msg_data = [0x68, 0xC3, 0xA9, 0xE2, 0x82, 0xAC, 0xF0, 0x9F, 0x98, 0x80]\<rparr>) =
     ([LogFormat (js ''\<newline>Received message on news from peer:'')
         [0x68, 0xE9, 0x20AC, 0xD83D, 0xDE00]], Finished ())"
proof -
  note t = text_bytes_text_identity
    [OF safe_example, of "\<lambda>c. Resolved" "js ''news''" "\<lambda>c. Resolved" "js ''peer''"]
  from t have 1: "uint8ArrayToString [0x68, 0xC3, 0xA9, 0xE2, 0x82, 0xAC, 0xF0, 0x9F, 0x98, 0x80] =
     [0x68, 0xE9, 0x20AC, 0xD83D, 0xDE00]"
    by (simp add: encode_example)
  from t have 2: "run_with (\<lambda>c. Resolved)
     (pubsub_publish (\<lambda>text. Inr (uint8ArrayFromString text)) (js ''news'')
        [0x68, 0xE9, 0x20AC, 0xD83D, 0xDE00]) =
     ([Call (PubsubPublish (js ''news'')
               [0x68, 0xC3, 0xA9, 0xE2, 0x82, 0xAC, 0xF0, 0x9F, 0x98, 0x80]),
       Log (js ''Published message to news'')], Finished ())"
    by (simp add: encode_example js_def)
  from t 2 have 3: "run_with (\<lambda>c. Resolved)
     (message_callback (\<lambda>data. Inr (uint8ArrayToString data)) (js ''news'')
        \<lparr>msg_from = js ''peer'',
         msg_data = [0x68, 0xC3, 0xA9, 0xE2, 0x82, 0xAC, 0xF0, 0x9F, 0x98, 0x80]\<rparr>) =
     ([LogFormat (js ''\<newline>Received message on news from peer:'')
         [0x68, 0xE9, 0x20AC, 0xD83D, 0xDE00]], Finished ())"
    by (simp add: js_def)
  from safe_example 1 2 3 show ?thesis by blast
qed

subsection \<open>The subscription callback\<close>

lemma decode_FF: "uint8ArrayToString [0xFF] = [0xFFFD]"
  by (simp add: uint8ArrayToString_def utf8_decode.simps(2) utf16_units_def)

lemma decode_EF_BF_BD: "uint8ArrayToString [0xEF, 0xBF, 0xBD] = [0xFFFD]"
  by (simp add: uint8ArrayToString_def utf8_decode.simps(2) utf16_units_def)

lemma encode_FFFD: "uint8ArrayFromString [0xFFFD] = [0xEF, 0xBF, 0xBD]"
  by (simp add: uint8ArrayFromString_def utf8_bytes_def is_high_def is_low_def)

text \<open>
  C2, as the specification states it, fails. The payload \<open>FF\<close> is not UTF-8. If the
  decoder replaces malformed bytes, the callback makes for it the same ordinary
  \<open>console.log\<close> call as for the well-formed payload \<open>EF BF BD\<close>, and no decode failure
  is logged; if the decoder throws on malformed bytes, the exception leaves the callback.
\<close>

theorem malformed_payload_not_reported:
  "run_with (\<lambda>c. Resolved)
     (message_callback (\<lambda>bytes. Inr (uint8ArrayToString bytes)) (js ''news'')
        \<lparr>msg_from = js ''peer'', msg_data = [0xFF]\<rparr>) =
     ([LogFormat (js ''\<newline>Received message on news from peer:'') [0xFFFD]], Finished ())
   \<and> run_with (\<lambda>c. Resolved)
     (message_callback (\<lambda>bytes. Inr (uint8ArrayToString bytes)) (js ''news'')
        \<lparr>msg_from = js ''peer'', msg_data = [0xEF, 0xBF, 0xBD]\<rparr>) =
     ([LogFormat (js ''\<newline>Received message on news from peer:'') [0xFFFD]], Finished ())
   \<and> run_with (\<lambda>c. Resolved)
     (message_callback fatal_decoder (js ''news'')
        \<lparr>msg_from = js ''peer'', msg_data = [0xFF]\<rparr>) =
     ([], Uncaught (TypeError (js ''The encoded data was not valid'')))"
  by (simp add: message_callback_def of_result_def fatal_decoder_def
      decode_FF decode_EF_BF_BD encode_FFFD js_def)

text \<open>
  C2, amended. The callback has no handler of its own and no report of a decode
  failure: when decoding returns a text, the callback makes exactly one call
  \<open>console.log(template, text)\<close>, whose format string is \<open>Received message on T from F:\<close>
  with the topic and the sender in it and whose argument is the text, and returns; when
  decoding throws, the exception leaves the callback. With the decoder that replaces
  malformed bytes by U+FFFD decoding always returns, so nothing is thrown and a
  malformed payload is logged like any other message.
\<close>

theorem message_callback_outcome:
  "run_with node (message_callback dec topic msg) =
     (case dec (msg_data msg) of
        Inl e \<Rightarrow> ([], Uncaught e)
      | Inr text \<Rightarrow>
          ([LogFormat
              (js ''\<newline>Received message on '' @ topic @ js '' from '' @ msg_from msg @
               js '':'')
              text], Finished ()))
   \<and> run_with node (message_callback (\<lambda>bytes. Inr (uint8ArrayToString bytes)) topic msg) =
       ([LogFormat
           (js ''\<newline>Received message on '' @ topic @ js '' from '' @ msg_from msg @
            js '':'')
           (uint8ArrayToString (msg_data msg))], Finished ())"
  by (simp add: message_callback_def of_result_def split: sum.splits)

end
